theory Spec2Isabelle
  imports Main "HOL-Library.Word" "HOL-Library.Sublist"
begin

unbundle bit_operations_syntax

section \<open>The mdns command: query dispatch, response routing, record assembly\<close>

text \<open>
  A shallow embedding of \<^verbatim>\<open>mdns.go\<close>. The function \<^verbatim>\<open>query\<close> opens a UDP socket,
  sends the enumeration question, and then loops: it reads a datagram, decodes it, and
  either sends follow-up questions (the datagram answers the enumeration question) or
  prints one line assembled from the records of the datagram.

  Everything the function gets from outside is an input of the model: the results of
  \<^verbatim>\<open>ReadFrom\<close> are a list of receive events, and the DNS codec, the identifier source
  \<^verbatim>\<open>dns.Id\<close> and the result of each \<^verbatim>\<open>WriteTo\<close> are fields of an environment record.
  Everything it does to the outside is a trace in the state: the datagrams sent, the
  chunks printed on standard output, the lines logged.
\<close>

subsection \<open>Go library functions on strings\<close>

text \<open>
  Go strings are byte sequences; a \<^typ>\<open>string\<close> is a list of bytes. The cut sets and the
  separator the program passes are single ASCII bytes, for which Go works bytewise.
\<close>

definition HasSuffix :: "string \<Rightarrow> string \<Rightarrow> bool" where
  "HasSuffix s suff \<longleftrightarrow>
     length suff \<le> length s \<and> drop (length s - length suff) s = suff"

text \<open>\<^verbatim>\<open>strings.TrimSuffix\<close>: the string without the given suffix, or the string itself.\<close>

definition TrimSuffix :: "string \<Rightarrow> string \<Rightarrow> string" where
  "TrimSuffix s suff =
     (if HasSuffix s suff then take (length s - length suff) s else s)"

text \<open>\<^verbatim>\<open>strings.Trim\<close>: all leading and all trailing bytes of the cut set removed.\<close>

definition Trim :: "string \<Rightarrow> string \<Rightarrow> string" where
  "Trim s cutset =
     rev (dropWhile (\<lambda>c. c \<in> set cutset) (rev (dropWhile (\<lambda>c. c \<in> set cutset) s)))"

text \<open>
  \<^verbatim>\<open>strings.Split\<close> with a one-byte separator (the program passes \<^verbatim>\<open>"."\<close>): the pieces
  between the separators, one more than there are separators; the empty string gives one
  empty piece.
\<close>

fun Split :: "string \<Rightarrow> char \<Rightarrow> string list" where
  "Split [] sep = [[]]"
| "Split (c # cs) sep =
     (if c = sep then [] # Split cs sep
      else (case Split cs sep of
              [] \<Rightarrow> [[c]]
            | p # ps \<Rightarrow> (c # p) # ps))"

text \<open>The verb \<^verbatim>\<open>%d\<close> of \<^verbatim>\<open>fmt\<close> on an unsigned value: its decimal digits.\<close>

definition digit :: "nat \<Rightarrow> char" where
  "digit d = ''0123456789'' ! d"

fun decimal :: "nat \<Rightarrow> string" where
  "decimal n = (if n < 10 then [digit n] else decimal (n div 10) @ [digit (n mod 10)])"

declare decimal.simps [simp del]

subsection \<open>DNS messages, as the codec hands them over\<close>

type_synonym byte = "8 word"
type_synonym uint16 = "16 word"

text \<open>
  The resource records the program tells apart by a type switch, with the fields it reads.
  The address records carry the text of their address, that is the result of the library's
  \<^verbatim>\<open>String()\<close> on the address. \<open>OtherRR\<close> stands for every other record type.
\<close>

datatype RR =
    PTR (Hdr_Name: string) (Ptr: string)
  | SRV (Hdr_Name: string) (Target: string) (Port: uint16)
  | A (Hdr_Name: string) (A_String: string)
  | AAAA (Hdr_Name: string) (AAAA_String: string)
  | TXT (Hdr_Name: string) (Txt: "string list")
  | OtherRR (Hdr_Name: string)

record Question =
  Name :: string
  Qtype :: uint16
  Qclass :: uint16

record Msg =
  MsgHdr_Id :: uint16
  Question :: "Question list"
  Answer :: "RR list"
  Extra :: "RR list"

definition TypePTR :: uint16 where
  "TypePTR = 12"

definition ClassINET :: uint16 where
  "ClassINET = 1"

text \<open>The question both the enumeration query and every follow-up query carry.\<close>

definition ptr_question :: "uint16 \<Rightarrow> string \<Rightarrow> Msg" where
  "ptr_question i n =
     \<lparr>MsgHdr_Id = i,
      Question = [\<lparr>Name = n, Qtype = TypePTR, Qclass = ClassINET OR push_bit 15 1\<rparr>],
      Answer = [], Extra = []\<rparr>"

subsection \<open>Errors, the environment and the state\<close>

text \<open>
  Go errors: \<open>ErrClosed\<close> is \<^verbatim>\<open>net.ErrClosed\<close>, \<open>Wrapped\<close> an error wrapping another one
  (as the network library's operation errors do), \<open>Failure\<close> any other error with its text.
  \<^verbatim>\<open>errors.Is(err, net.ErrClosed)\<close> looks through the wrappers.
\<close>

datatype error = ErrClosed | Wrapped string error | Failure string

fun Is_ErrClosed :: "error \<Rightarrow> bool" where
  "Is_ErrClosed ErrClosed = True"
| "Is_ErrClosed (Wrapped _ e) = Is_ErrClosed e"
| "Is_ErrClosed (Failure _) = False"

fun Error :: "error \<Rightarrow> string" where
  "Error ErrClosed = ''use of closed network connection''"
| "Error (Wrapped t e) = t @ '': '' @ Error e"
| "Error (Failure t) = t"

text \<open>
  One result of \<^verbatim>\<open>conn.ReadFrom\<close>: an error, or the bytes read and the text of the sender's
  address. The goroutine that closes the socket when the context is done shows up here as
  a receive that fails with an error that is \<^verbatim>\<open>net.ErrClosed\<close>.
\<close>

datatype recv = RecvErr error | RecvOk "byte list" string

record env =
  ListenPacket :: "error option"
  dns_Id :: "nat \<Rightarrow> uint16"
  Pack :: "Msg \<Rightarrow> error + byte list"
  Unpack :: "byte list \<Rightarrow> error + Msg"
  WriteTo :: "nat \<Rightarrow> byte list \<Rightarrow> error option"

text \<open>
  \<open>dns_Id e k\<close> is what the \<open>k\<close>-th call of \<^verbatim>\<open>dns.Id()\<close> returns and \<open>WriteTo e k buf\<close> the
  error of the \<open>k\<close>-th call of \<^verbatim>\<open>conn.WriteTo\<close>, if any; the state counts the calls made.
\<close>

text \<open>
  A datagram written to the socket: its bytes, the message the bytes were packed from
  (kept in the trace so that the properties can name the question sent) and where it went.
\<close>

record datagram =
  payload :: "byte list"
  packed_from :: Msg
  dest :: string

record state =
  services :: "string \<rightharpoonup> unit"
  ids_drawn :: nat
  writes :: nat
  sent :: "datagram list"
  stdout :: "string list"
  logged :: "string list"

definition mdnsAddr4 :: string where
  "mdnsAddr4 = ''224.0.0.251:5353''"

text \<open>
  \<^verbatim>\<open>m.Pack()\<close> followed by \<^verbatim>\<open>conn.WriteTo(buf, mdnsAddr4)\<close>, the pair of calls that sends a
  question; either can fail, and the error is returned.
\<close>

definition pack_and_write :: "env \<Rightarrow> state \<Rightarrow> Msg \<Rightarrow> error option \<times> state" where
  "pack_and_write e s m =
     (case Pack e m of
        Inl err \<Rightarrow> (Some err, s)
      | Inr buf \<Rightarrow>
          (case WriteTo e (writes s) buf of
             Some err \<Rightarrow> (Some err, s\<lparr>writes := Suc (writes s)\<rparr>)
           | None \<Rightarrow>
               (None, s\<lparr>writes := Suc (writes s),
                        sent := sent s @ [\<lparr>payload = buf, packed_from = m, dest = mdnsAddr4\<rparr>]\<rparr>)))"

subsection \<open>Answers to the enumeration query\<close>

text \<open>
  The loop over \<^verbatim>\<open>msg.Answer\<close> of a message whose identifier is the one of the
  enumeration query. A pointer record whose target is already a key of \<^verbatim>\<open>services\<close> is
  skipped; otherwise the target is stored first and a question for it is packed and sent.
  An error ends the whole function.
\<close>

fun enumeration_answers :: "env \<Rightarrow> state \<Rightarrow> RR list \<Rightarrow> error option \<times> state" where
  "enumeration_answers e s [] = (None, s)"
| "enumeration_answers e s (a # as) =
     (case a of
        PTR h p \<Rightarrow>
          (if services s p \<noteq> None then enumeration_answers e s as
           else
             (let s1 = s\<lparr>services := (services s)(p \<mapsto> ())\<rparr>;
                  i = dns_Id e (ids_drawn s1);
                  s2 = s1\<lparr>ids_drawn := Suc (ids_drawn s1)\<rparr>
              in (case pack_and_write e s2 (ptr_question i p) of
                    (Some err, s3) \<Rightarrow> (Some err, s3)
                  | (None, s3) \<Rightarrow> enumeration_answers e s3 as)))
      | _ \<Rightarrow> enumeration_answers e s as)"

subsection \<open>Assembling the records of a service response\<close>

record service_instance =
  name :: string
  host :: string
  service :: string
  proto :: string
  addrs :: "string list"

definition no_instance :: service_instance where
  "no_instance = \<lparr>name = [], host = [], service = [], proto = [], addrs = []\<rparr>"

text \<open>The body of the second type switch: what one record does to the five variables.\<close>

fun assemble_rr :: "service_instance \<Rightarrow> RR \<Rightarrow> service_instance" where
  "assemble_rr v (PTR h p) =
     (let v1 = v\<lparr>name := TrimSuffix p (''.'' @ h)\<rparr>;
          svcParts = Split (Trim h ''.'') CHR ''.''
      in if length svcParts = 3 \<and> svcParts ! 2 = ''local''
         then v1\<lparr>service := Trim (svcParts ! 0) ''_'', proto := Trim (svcParts ! 1) ''_''\<rparr>
         else v1)"
| "assemble_rr v (SRV h t p) =
     v\<lparr>host := TrimSuffix t ''.'' @ '':'' @ decimal (unat p)\<rparr>"
| "assemble_rr v (A h a) = v\<lparr>addrs := addrs v @ [a]\<rparr>"
| "assemble_rr v (AAAA h a) = v\<lparr>addrs := addrs v @ [a]\<rparr>"
| "assemble_rr v (TXT h t) = v"
| "assemble_rr v (OtherRR h) = v"

text \<open>The loop over \<^verbatim>\<open>append(msg.Answer, msg.Extra...)\<close>, from five empty variables.\<close>

definition assemble :: "Msg \<Rightarrow> service_instance" where
  "assemble m = foldl assemble_rr no_instance (Answer m @ Extra m)"

text \<open>The text of \<^verbatim>\<open>fmt.Printf("%s\t%s\t%s\t%s\n", proto, service, host, name)\<close>.\<close>

definition output_line :: "service_instance \<Rightarrow> string" where
  "output_line v =
     proto v @ [CHR 0x09] @ service v @ [CHR 0x09] @ host v @ [CHR 0x09] @ name v @ [CHR 0x0A]"

subsection \<open>The read loop and the function \<^verbatim>\<open>query\<close>\<close>

text \<open>
  The result of a run on a finite list of receive events: the function has returned
  (with an error or with \<^verbatim>\<open>nil\<close>), or it has consumed every event and is blocked in the
  next \<^verbatim>\<open>ReadFrom\<close>.
\<close>

datatype outcome = Returned "error option" | Blocked

text \<open>The text of \<^verbatim>\<open>log.Printf("bad response from %v: %v", addr, err)\<close>.\<close>

definition bad_response :: "string \<Rightarrow> error \<Rightarrow> string" where
  "bad_response addr err = ''bad response from '' @ addr @ '': '' @ Error err"

fun read_loop :: "env \<Rightarrow> uint16 \<Rightarrow> state \<Rightarrow> recv list \<Rightarrow> outcome \<times> state" where
  "read_loop e servicesQueryID s [] = (Blocked, s)"
| "read_loop e servicesQueryID s (RecvErr err # rs) =
     (if Is_ErrClosed err then (Returned None, s) else (Returned (Some err), s))"
| "read_loop e servicesQueryID s (RecvOk buf addr # rs) =
     (case Unpack e buf of
        Inl err \<Rightarrow>
          read_loop e servicesQueryID (s\<lparr>logged := logged s @ [bad_response addr err]\<rparr>) rs
      | Inr msg \<Rightarrow>
          if MsgHdr_Id msg = servicesQueryID
          then (case enumeration_answers e s (Answer msg) of
                  (Some err, s') \<Rightarrow> (Returned (Some err), s')
                | (None, s') \<Rightarrow> read_loop e servicesQueryID s' rs)
          else read_loop e servicesQueryID
                 (s\<lparr>stdout := stdout s @ [output_line (assemble msg)]\<rparr>) rs)"

definition start :: state where
  "start = \<lparr>services = Map.empty, ids_drawn = 0, writes = 0, sent = [], stdout = [], logged = []\<rparr>"

definition query :: "env \<Rightarrow> string \<Rightarrow> recv list \<Rightarrow> outcome \<times> state" where
  "query e qname rs =
     (case ListenPacket e of
        Some err \<Rightarrow> (Returned (Some err), start)
      | None \<Rightarrow>
          (let servicesQueryID = dns_Id e 0;
               s0 = start\<lparr>ids_drawn := 1\<rparr>
           in (case pack_and_write e s0 (ptr_question servicesQueryID qname) of
                 (Some err, s1) \<Rightarrow> (Returned (Some err), s1)
               | (None, s1) \<Rightarrow> read_loop e servicesQueryID s1 rs)))"

subsection \<open>Notions used to state the properties\<close>

text \<open>
  The test the pointer case makes on the subject name before it assigns the two labels:
  \<^verbatim>\<open>len(svcParts) == 3 && svcParts[2] == "local"\<close>.
\<close>

definition label_shape :: "string \<Rightarrow> bool" where
  "label_shape h \<longleftrightarrow>
     (let svcParts = Split (Trim h ''.'') CHR ''.''
      in length svcParts = 3 \<and> svcParts ! 2 = ''local'')"

text \<open>The records that assign the labels, and the address texts of a list of records.\<close>

fun sets_labels :: "RR \<Rightarrow> bool" where
  "sets_labels (PTR h p) = label_shape h"
| "sets_labels _ = False"

fun address_texts :: "RR list \<Rightarrow> string list" where
  "address_texts [] = []"
| "address_texts (a # as) =
     (case a of A h t \<Rightarrow> t # address_texts as | AAAA h t \<Rightarrow> t # address_texts as | _ \<Rightarrow> address_texts as)"

text \<open>
  The instance name as the specification words it: the subject name, minus its trailing
  dot, stripped as a suffix from the target. The second definition reads the same words
  the other way: the subject name stripped as a suffix, and the trailing dot taken off
  what is left. Both are compared with what the code computes.
\<close>

definition instance_name_as_specified :: "string \<Rightarrow> string \<Rightarrow> string" where
  "instance_name_as_specified target subject = TrimSuffix target (TrimSuffix subject ''.'')"

definition leaf_as_specified :: "string \<Rightarrow> string \<Rightarrow> string" where
  "leaf_as_specified target subject = TrimSuffix (TrimSuffix target subject) ''.''"

text \<open>The targets of the pointer records of a list of records, in order.\<close>

fun ptr_targets :: "RR list \<Rightarrow> string list" where
  "ptr_targets [] = []"
| "ptr_targets (a # as) = (case a of PTR h p \<Rightarrow> p # ptr_targets as | _ \<Rightarrow> ptr_targets as)"

text \<open>The message of a receive event, when there is a datagram and it decodes.\<close>

definition decoded :: "env \<Rightarrow> recv \<Rightarrow> Msg option" where
  "decoded e r =
     (case r of
        RecvErr err \<Rightarrow> None
      | RecvOk buf addr \<Rightarrow> (case Unpack e buf of Inl err \<Rightarrow> None | Inr m \<Rightarrow> Some m))"

fun received :: "recv \<Rightarrow> bool" where
  "received (RecvErr err) = False"
| "received (RecvOk buf addr) = True"

text \<open>
  Over a list of receive events, in order: the pointer targets of the answers of the
  enumeration responses, and the lines of the other responses.
\<close>

fun enumeration_targets :: "env \<Rightarrow> uint16 \<Rightarrow> recv list \<Rightarrow> string list" where
  "enumeration_targets e key [] = []"
| "enumeration_targets e key (r # rs) =
     (case decoded e r of
        Some m \<Rightarrow> if MsgHdr_Id m = key then ptr_targets (Answer m) else []
      | None \<Rightarrow> []) @ enumeration_targets e key rs"

fun service_lines :: "env \<Rightarrow> uint16 \<Rightarrow> recv list \<Rightarrow> string list" where
  "service_lines e key [] = []"
| "service_lines e key (r # rs) =
     (case decoded e r of
        Some m \<Rightarrow> if MsgHdr_Id m = key then [] else [output_line (assemble m)]
      | None \<Rightarrow> []) @ service_lines e key rs"

text \<open>The names asked for by a list of datagrams sent.\<close>

definition asked :: "datagram list \<Rightarrow> string list" where
  "asked ds = concat (map (\<lambda>d. map Name (Question (packed_from d))) ds)"

text \<open>The names of a list that are not in \<open>S\<close>, each at its first occurrence only.\<close>

fun first_new :: "string set \<Rightarrow> string list \<Rightarrow> string list" where
  "first_new S [] = []"
| "first_new S (x # xs) = (if x \<in> S then first_new S xs else x # first_new (insert x S) xs)"

text \<open>An environment in which no question fails to be packed or written.\<close>

definition never_fails :: "env \<Rightarrow> bool" where
  "never_fails e \<longleftrightarrow> (\<forall>m. \<exists>buf. Pack e m = Inr buf) \<and> (\<forall>k buf. WriteTo e k buf = None)"

text \<open>The questions for a list of names, with the identifiers drawn from the \<open>k\<close>-th on.\<close>

definition followups :: "env \<Rightarrow> nat \<Rightarrow> string list \<Rightarrow> Msg list" where
  "followups e k ns = map (\<lambda>(j, n). ptr_question (dns_Id e j) n) (enumerate k ns)"

subsection \<open>Example messages and environments\<close>

text \<open>
  The example response of the specification: a pointer record, a service-location record
  and an IPv4 address record, under a transaction identifier \<open>i\<close>.
\<close>

definition example_response :: "uint16 \<Rightarrow> Msg" where
  "example_response i =
     \<lparr>MsgHdr_Id = i, Question = [],
      Answer = [PTR ''_http._tcp.local.'' ''My Printer._http._tcp.local.'',
                SRV ''My Printer._http._tcp.local.'' ''printer.local.'' 631,
                A ''printer.local.'' ''192.168.1.5''],
      Extra = []\<rparr>"

text \<open>
  A response with two pointer records, the second for a subtype of the service, a
  service-location record on either side of the supplemental section, and two addresses.
\<close>

definition subtype_response :: "uint16 \<Rightarrow> Msg" where
  "subtype_response i =
     \<lparr>MsgHdr_Id = i, Question = [],
      Answer = [PTR ''_http._tcp.local.'' ''My Printer._http._tcp.local.'',
                SRV ''My Printer._http._tcp.local.'' ''old.local.'' 80,
                A ''printer.local.'' ''192.168.1.5'',
                PTR ''_printer._sub._http._tcp.local.'' ''Other._printer._sub._http._tcp.local.''],
      Extra = [SRV ''My Printer._http._tcp.local.'' ''printer.local.'' 631,
               AAAA ''printer.local.'' ''fe80::1'']\<rparr>"

text \<open>
  An answer to the enumeration query that names the type \<^verbatim>\<open>_http._tcp.local.\<close> twice and
  the type \<^verbatim>\<open>_ipp._tcp.local.\<close> once, and carries a service-location record as well.
\<close>

definition enumeration_response :: "uint16 \<Rightarrow> Msg" where
  "enumeration_response i =
     \<lparr>MsgHdr_Id = i, Question = [],
      Answer = [PTR ''_services._dns-sd._udp.local.'' ''_http._tcp.local.'',
                SRV ''My Printer._http._tcp.local.'' ''printer.local.'' 631,
                PTR ''_services._dns-sd._udp.local.'' ''_ipp._tcp.local.'',
                PTR ''_services._dns-sd._udp.local.'' ''_http._tcp.local.''],
      Extra = [A ''printer.local.'' ''192.168.1.5'']\<rparr>"

text \<open>A response with an address record and a text record only.\<close>

definition address_response :: "uint16 \<Rightarrow> Msg" where
  "address_response i =
     \<lparr>MsgHdr_Id = i, Question = [],
      Answer = [A ''printer.local.'' ''192.168.1.5''],
      Extra = [TXT ''My Printer._http._tcp.local.'' [''path=/'']]\<rparr>"

text \<open>
  An environment for running the model: the identifiers drawn are 100, 101, ...; a
  question is packed into one byte; the datagram \<open>[1]\<close> decodes to the enumeration
  response above under the identifier 100, the datagram \<open>[2]\<close> to the example response
  under the identifier 7, the datagram \<open>[3]\<close> to the address response under the
  identifier 8, and nothing else decodes; no write fails.
\<close>

definition example_env :: env where
  "example_env =
     \<lparr>ListenPacket = None,
      dns_Id = (\<lambda>k. 100 + of_nat k),
      Pack = (\<lambda>m. Inr [ucast (MsgHdr_Id m)]),
      Unpack = (\<lambda>buf. if buf = [1] then Inr (enumeration_response 100)
                        else if buf = [2] then Inr (example_response 7)
                        else if buf = [3] then Inr (address_response 8)
                        else Inl (Failure ''dns: overflow unpacking uint16'')),
      WriteTo = (\<lambda>k buf. None)\<rparr>"

text \<open>
  The same environment, except that the third write fails, and a state as it is after the
  enumeration query was sent: one identifier drawn, one write made.
\<close>

definition failing_env :: env where
  "failing_env = example_env\<lparr>WriteTo := (\<lambda>k buf. if k = 2 then Some (Failure ''network is unreachable'') else None)\<rparr>"

definition after_first_write :: state where
  "after_first_write = start\<lparr>ids_drawn := 1, writes := 1\<rparr>"

text \<open>
  The state right after the enumeration question was written: one identifier drawn, one
  write made, one datagram sent, with the bytes \<open>buf\<close> that \<^verbatim>\<open>Pack\<close> returned.
\<close>

definition enumeration_sent :: "env \<Rightarrow> string \<Rightarrow> byte list \<Rightarrow> state" where
  "enumeration_sent e qname buf =
     start\<lparr>ids_drawn := 1, writes := 1,
           sent := [\<lparr>payload = buf, packed_from = ptr_question (dns_Id e 0) qname,
                     dest = mdnsAddr4\<rparr>]\<rparr>"

text \<open>
  The example response as the DNS library hands it over. The library gives every name in
  presentation format, where a space inside a label is written with a backslash before it,
  so the target of the pointer record is not the text \<^verbatim>\<open>My Printer._http._tcp.local.\<close> but
  \<^verbatim>\<open>My\ Printer._http._tcp.local.\<close>. The message takes the instance label, in the format of
  the library, as the parameter \<open>leaf\<close>; \<open>My_Printer\<close> is the label of the example.
\<close>

definition decoded_example_response :: "uint16 \<Rightarrow> string \<Rightarrow> Msg" where
  "decoded_example_response i leaf =
     \<lparr>MsgHdr_Id = i, Question = [],
      Answer = [PTR ''_http._tcp.local.'' (leaf @ ''._http._tcp.local.''),
                SRV (leaf @ ''._http._tcp.local.'') ''printer.local.'' 631,
                A ''printer.local.'' ''192.168.1.5''],
      Extra = []\<rparr>"

definition My_Printer :: string where
  "My_Printer = ''My'' @ [CHR 0x5C] @ '' Printer''"

text \<open>The example environment with the datagram \<open>[2]\<close> decoding to that message.\<close>

definition decoder_env :: env where
  "decoder_env =
     example_env\<lparr>Unpack := (\<lambda>buf. if buf = [2] then Inr (decoded_example_response 7 My_Printer)
                                  else Unpack example_env buf)\<rparr>"

text \<open>The example environment with every write failing.\<close>

definition unreachable_env :: env where
  "unreachable_env = example_env\<lparr>WriteTo := (\<lambda>k buf. Some (Failure ''network is unreachable''))\<rparr>"

text \<open>
  The example environment with a \<^verbatim>\<open>Pack\<close> that, like the one of the library, refuses a
  question whose name is not fully qualified.
\<close>

definition fqdn_env :: env where
  "fqdn_env =
     example_env\<lparr>Pack := (\<lambda>m. if list_all (\<lambda>q. Name q \<noteq> [] \<and> last (Name q) = CHR ''.'') (Question m)
                               then Inr [ucast (MsgHdr_Id m)]
                               else Inl (Failure ''dns: domain must be fully qualified''))\<rparr>"

section \<open>Properties\<close>

subsection \<open>The string functions\<close>

lemma HasSuffix_iff: "HasSuffix s t \<longleftrightarrow> suffix t s"
proof
  assume "HasSuffix s t"
  then have "s = take (length s - length t) s @ t"
    unfolding HasSuffix_def by (metis append_take_drop_id)
  then show "suffix t s" by (metis suffixI)
next
  assume "suffix t s"
  then obtain u where "s = u @ t" by (auto simp: suffix_def)
  then show "HasSuffix s t" by (simp add: HasSuffix_def)
qed

lemma TrimSuffix_append: "TrimSuffix (u @ t) t = u"
  by (simp add: TrimSuffix_def HasSuffix_def)

lemma TrimSuffix_no_suffix: "\<not> suffix t s \<Longrightarrow> TrimSuffix s t = s"
  by (simp add: TrimSuffix_def HasSuffix_iff)

lemma Split_not_Nil: "Split s c \<noteq> []"
  by (induction s) (auto split: list.splits)

lemma Split_no_sep: "c \<notin> set s \<Longrightarrow> Split s c = [s]"
  by (induction s) auto

lemma Split_append_sep: "c \<notin> set a \<Longrightarrow> Split (a @ c # r) c = a # Split r c"
  by (induction a) auto

lemma Split_single: "Split s c = [p] \<Longrightarrow> s = p \<and> c \<notin> set p"
proof (induction s arbitrary: p)
  case Nil then show ?case by simp
next
  case (Cons x xs)
  then show ?case using Split_not_Nil[of xs c]
    by (auto split: if_splits list.splits)
qed

lemma Split_Cons: "Split s c = p # q # ps \<Longrightarrow> \<exists>r. s = p @ c # r \<and> c \<notin> set p \<and> Split r c = q # ps"
proof (induction s arbitrary: p)
  case Nil then show ?case by simp
next
  case (Cons x xs)
  show ?case
  proof (cases "x = c")
    case True
    with Cons.prems show ?thesis by auto
  next
    case False
    with Cons.prems obtain p' where p': "Split xs c = p' # q # ps" "p = x # p'"
      by (auto split: list.splits)
    from Cons.IH[OF p'(1)] obtain r where "xs = p' @ c # r" "c \<notin> set p'" "Split r c = q # ps"
      by blast
    with p'(2) False show ?thesis by auto
  qed
qed

lemma Split_three:
  "length (Split s c) = 3 \<longleftrightarrow> (\<exists>a b d. c \<notin> set a \<and> c \<notin> set b \<and> c \<notin> set d \<and> s = a @ c # b @ c # d)"
proof
  assume "length (Split s c) = 3"
  then obtain a b d where abd: "Split s c = [a, b, d]"
    by (auto simp: length_Suc_conv numeral_3_eq_3)
  from Split_Cons[OF abd] obtain r where r: "s = a @ c # r" "c \<notin> set a" "Split r c = [b, d]" by blast
  from Split_Cons[OF r(3)] obtain r' where r': "r = b @ c # r'" "c \<notin> set b" "Split r' c = [d]" by blast
  from Split_single[OF r'(3)] have "r' = d" "c \<notin> set d" by auto
  with r r' show "\<exists>a b d. c \<notin> set a \<and> c \<notin> set b \<and> c \<notin> set d \<and> s = a @ c # b @ c # d" by blast
next
  assume "\<exists>a b d. c \<notin> set a \<and> c \<notin> set b \<and> c \<notin> set d \<and> s = a @ c # b @ c # d"
  then show "length (Split s c) = 3"
    by (auto simp: Split_append_sep Split_no_sep)
qed

lemma Split_three_parts:
  "c \<notin> set a \<Longrightarrow> c \<notin> set b \<Longrightarrow> c \<notin> set d \<Longrightarrow> Split (a @ c # b @ c # d) c = [a, b, d]"
  by (simp add: Split_append_sep Split_no_sep)

lemma label_shape_iff:
  "label_shape h \<longleftrightarrow>
     (\<exists>a b. CHR ''.'' \<notin> set a \<and> CHR ''.'' \<notin> set b \<and> Trim h ''.'' = a @ ''.'' @ b @ ''.local'')"
proof
  assume "label_shape h"
  then have len: "length (Split (Trim h ''.'') CHR ''.'') = 3"
    and loc: "Split (Trim h ''.'') CHR ''.'' ! 2 = ''local''"
    by (simp_all add: label_shape_def Let_def)
  from len obtain a b d where abd: "CHR ''.'' \<notin> set a" "CHR ''.'' \<notin> set b" "CHR ''.'' \<notin> set d"
      "Trim h ''.'' = a @ CHR ''.'' # b @ CHR ''.'' # d"
    unfolding Split_three by blast
  then have "Split (Trim h ''.'') CHR ''.'' = [a, b, d]" by (simp add: Split_three_parts)
  with loc have "d = ''local''" by simp
  with abd show "\<exists>a b. CHR ''.'' \<notin> set a \<and> CHR ''.'' \<notin> set b \<and> Trim h ''.'' = a @ ''.'' @ b @ ''.local''"
    by auto
next
  assume "\<exists>a b. CHR ''.'' \<notin> set a \<and> CHR ''.'' \<notin> set b \<and> Trim h ''.'' = a @ ''.'' @ b @ ''.local''"
  then obtain a b where ab: "CHR ''.'' \<notin> set a" "CHR ''.'' \<notin> set b"
     "Trim h ''.'' = a @ CHR ''.'' # b @ CHR ''.'' # ''local''" by auto
  have "Split (Trim h ''.'') CHR ''.'' = [a, b, ''local'']"
    unfolding ab(3) by (rule Split_three_parts) (use ab in simp_all)
  then show "label_shape h" by (simp add: label_shape_def)
qed

subsection \<open>Sending questions and the answers to the enumeration query\<close>

lemma first_new_append: "first_new S (xs @ ys) = first_new S xs @ first_new (S \<union> set xs) ys"
  by (induction xs arbitrary: S) (auto simp: insert_absorb)

lemma set_first_new: "set (first_new S xs) = set xs - S"
  by (induction xs arbitrary: S) auto

lemma distinct_first_new: "distinct (first_new S xs)"
  by (induction xs arbitrary: S) (auto simp: set_first_new)

lemma count_list_distinct: "distinct xs \<Longrightarrow> count_list xs x = (if x \<in> set xs then 1 else 0)"
  by (induction xs) auto

lemma count_first_new:
  "count_list (first_new S xs) x = (if x \<in> set xs \<and> x \<notin> S then 1 else 0)"
  using count_list_distinct [OF distinct_first_new, of S xs x] by (simp add: set_first_new)

lemma asked_append: "asked (ds @ ds') = asked ds @ asked ds'"
  by (simp add: asked_def)

lemma followups_append:
  "followups e k (ns @ ns') = followups e k ns @ followups e (k + length ns) ns'"
  by (simp add: followups_def enumerate_append_eq)

lemma followups_Cons: "followups e k (n # ns) = ptr_question (dns_Id e k) n # followups e (Suc k) ns"
  by (simp add: followups_def)

lemma followups_Nil: "followups e k [] = []"
  by (simp add: followups_def)

lemma length_followups: "length (followups e k ns) = length ns"
  by (simp add: followups_def)

lemma asked_followups:
  "map packed_from ds = followups e k ns \<Longrightarrow> asked ds = ns"
proof (induction ds arbitrary: k ns)
  case Nil
  then have "length ns = 0"
    using length_followups [of e k ns] by simp
  then show ?case by (simp add: asked_def)
next
  case (Cons d ds)
  then have "length ns = Suc (length ds)"
    using length_followups [of e k ns] by (metis length_Cons length_map)
  then obtain n ns' where ns: "ns = n # ns'"
    by (cases ns) auto
  with Cons.prems have d: "packed_from d = ptr_question (dns_Id e k) n"
    and rest: "map packed_from ds = followups e (Suc k) ns'"
    by (simp_all add: followups_Cons)
  from Cons.IH [OF rest] have "asked ds = ns'" .
  with d ns show ?case by (simp add: asked_def ptr_question_def)
qed

lemma pack_and_write_ok:
  assumes "never_fails e"
  shows "\<exists>buf. pack_and_write e s m =
           (None, s\<lparr>writes := Suc (writes s),
                    sent := sent s @ [\<lparr>payload = buf, packed_from = m, dest = mdnsAddr4\<rparr>]\<rparr>)"
proof -
  from assms obtain buf where "Pack e m = Inr buf" unfolding never_fails_def by blast
  moreover from assms have "WriteTo e (writes s) buf = None" by (simp add: never_fails_def)
  ultimately have "pack_and_write e s m =
           (None, s\<lparr>writes := Suc (writes s),
                    sent := sent s @ [\<lparr>payload = buf, packed_from = m, dest = mdnsAddr4\<rparr>]\<rparr>)"
    by (simp add: pack_and_write_def)
  then show ?thesis by blast
qed

lemma pack_and_write_failure:
  "fst (pack_and_write e s m) = Some err \<longleftrightarrow>
     Pack e m = Inl err \<or> (\<exists>buf. Pack e m = Inr buf \<and> WriteTo e (writes s) buf = Some err)"
  by (auto simp: pack_and_write_def split: sum.splits option.splits)

lemma pack_and_write_keeps:
  "pack_and_write e s m = (r, s') \<Longrightarrow>
     services s' = services s \<and> stdout s' = stdout s \<and> logged s' = logged s \<and> ids_drawn s' = ids_drawn s"
  by (auto simp: pack_and_write_def split: sum.splits option.splits)

lemma pack_and_write_failure_sent:
  "pack_and_write e s m = (Some err, s') \<Longrightarrow> sent s' = sent s"
  by (auto simp: pack_and_write_def split: sum.splits option.splits)

lemma enumeration_answers_ok:
  assumes "never_fails e"
  shows "\<exists>s'. enumeration_answers e s as = (None, s')
           \<and> map packed_from (sent s') =
               map packed_from (sent s) @
               followups e (ids_drawn s) (first_new (dom (services s)) (ptr_targets as))
           \<and> ids_drawn s' = ids_drawn s + length (first_new (dom (services s)) (ptr_targets as))
           \<and> dom (services s') = dom (services s) \<union> set (ptr_targets as)
           \<and> stdout s' = stdout s \<and> logged s' = logged s"
proof (induction as arbitrary: s)
  case Nil
  show ?case by (simp add: followups_Nil)
next
  case (Cons a as)
  show ?case
  proof (cases a)
    case (PTR h p)
    show ?thesis
    proof (cases "services s p")
      case (Some u)
      then have "p \<in> dom (services s)" by auto
      with Cons.IH [of s] PTR Some show ?thesis
        by (auto simp: insert_absorb)
    next
      case None
      define s2 where
        "s2 = s\<lparr>services := (services s)(p \<mapsto> ()), ids_drawn := Suc (ids_drawn s)\<rparr>"
      obtain buf where pw: "pack_and_write e s2 (ptr_question (dns_Id e (ids_drawn s)) p) =
          (None, s2\<lparr>writes := Suc (writes s2),
                    sent := sent s2 @ [\<lparr>payload = buf,
                       packed_from = ptr_question (dns_Id e (ids_drawn s)) p, dest = mdnsAddr4\<rparr>]\<rparr>)"
        using pack_and_write_ok [OF assms] by blast
      define s3 where "s3 = s2\<lparr>writes := Suc (writes s2),
                    sent := sent s2 @ [\<lparr>payload = buf,
                       packed_from = ptr_question (dns_Id e (ids_drawn s)) p, dest = mdnsAddr4\<rparr>]\<rparr>"
      from Cons.IH [of s3] obtain s' where s':
        "enumeration_answers e s3 as = (None, s')"
        "map packed_from (sent s') = map packed_from (sent s3) @
               followups e (ids_drawn s3) (first_new (dom (services s3)) (ptr_targets as))"
        "ids_drawn s' = ids_drawn s3 + length (first_new (dom (services s3)) (ptr_targets as))"
        "dom (services s') = dom (services s3) \<union> set (ptr_targets as)"
        "stdout s' = stdout s3" "logged s' = logged s3"
        by blast
      have step: "enumeration_answers e s (a # as) = enumeration_answers e s3 as"
        using PTR None pw by (simp add: s2_def s3_def Let_def)
      have notin: "p \<notin> dom (services s)" using None by auto
      have s3f: "dom (services s3) = insert p (dom (services s))" "ids_drawn s3 = Suc (ids_drawn s)"
        "map packed_from (sent s3) = map packed_from (sent s) @ [ptr_question (dns_Id e (ids_drawn s)) p]"
        "stdout s3 = stdout s" "logged s3 = logged s"
        by (simp_all add: s3_def s2_def)
      show ?thesis
        unfolding step using s' s3f notin PTR
        by (simp add: followups_Cons)
    qed
  qed (use Cons.IH [of s] in simp_all)
qed

lemma enumeration_answers_stdout:
  "stdout (snd (enumeration_answers e s as)) = stdout s
   \<and> logged (snd (enumeration_answers e s as)) = logged s"
proof (induction as arbitrary: s)
  case Nil
  show ?case by simp
next
  case (Cons a as)
  show ?case
  proof (cases a)
    case (PTR h p)
    show ?thesis
    proof (cases "services s p")
      case (Some u)
      with Cons.IH [of s] PTR show ?thesis by simp
    next
      case None
      define s2 where
        "s2 = s\<lparr>services := (services s)(p \<mapsto> ()), ids_drawn := Suc (ids_drawn s)\<rparr>"
      obtain r s3 where pw: "pack_and_write e s2 (ptr_question (dns_Id e (ids_drawn s)) p) = (r, s3)"
        by (cases "pack_and_write e s2 (ptr_question (dns_Id e (ids_drawn s)) p)")
      from pack_and_write_keeps [OF pw] have k: "stdout s3 = stdout s" "logged s3 = logged s"
        by (simp_all add: s2_def)
      show ?thesis
      proof (cases r)
        case None
        with PTR \<open>services s p = None\<close> pw
        have "enumeration_answers e s (a # as) = enumeration_answers e s3 as"
          by (simp add: s2_def Let_def)
        with Cons.IH [of s3] k show ?thesis by simp
      next
        case (Some err)
        with PTR \<open>services s p = None\<close> pw
        have "enumeration_answers e s (a # as) = (Some err, s3)"
          by (simp add: s2_def Let_def)
        with k show ?thesis by simp
      qed
    qed
  qed (use Cons.IH [of s] in simp_all)
qed

lemma enumeration_answers_append:
  "enumeration_answers e s (as @ bs) =
     (case enumeration_answers e s as of
        (Some err, s') \<Rightarrow> (Some err, s')
      | (None, s') \<Rightarrow> enumeration_answers e s' bs)"
proof (induction as arbitrary: s)
  case Nil
  show ?case by simp
next
  case (Cons a as)
  show ?case
    by (cases a) (auto simp: Cons.IH Let_def split: prod.splits option.splits)
qed

lemma read_loop_ok:
  assumes "never_fails e"
  shows "list_all received rs \<Longrightarrow>
         \<exists>s'. read_loop e key s rs = (Blocked, s')
           \<and> map packed_from (sent s') =
               map packed_from (sent s) @
               followups e (ids_drawn s) (first_new (dom (services s)) (enumeration_targets e key rs))
           \<and> ids_drawn s' = ids_drawn s + length (first_new (dom (services s)) (enumeration_targets e key rs))
           \<and> dom (services s') = dom (services s) \<union> set (enumeration_targets e key rs)
           \<and> stdout s' = stdout s @ service_lines e key rs"
proof (induction rs arbitrary: s)
  case Nil
  show ?case by (simp add: followups_Nil)
next
  case (Cons r rs)
  from Cons.prems obtain buf addr where r: "r = RecvOk buf addr" and rest: "list_all received rs"
    by (cases r) auto
  show ?case
  proof (cases "Unpack e buf")
    case (Inl err)
    with r have d: "decoded e r = None" by (simp add: decoded_def)
    from Cons.IH [OF rest, of "s\<lparr>logged := logged s @ [bad_response addr err]\<rparr>"] r Inl d
    show ?thesis by simp
  next
    case (Inr msg)
    with r have d: "decoded e r = Some msg" by (simp add: decoded_def)
    show ?thesis
    proof (cases "MsgHdr_Id msg = key")
      case False
      from Cons.IH [OF rest, of "s\<lparr>stdout := stdout s @ [output_line (assemble msg)]\<rparr>"] r Inr d False
      show ?thesis by simp
    next
      case True
      from enumeration_answers_ok [OF assms, of s "Answer msg"] obtain s1 where s1:
        "enumeration_answers e s (Answer msg) = (None, s1)"
        "map packed_from (sent s1) = map packed_from (sent s) @
               followups e (ids_drawn s) (first_new (dom (services s)) (ptr_targets (Answer msg)))"
        "ids_drawn s1 = ids_drawn s + length (first_new (dom (services s)) (ptr_targets (Answer msg)))"
        "dom (services s1) = dom (services s) \<union> set (ptr_targets (Answer msg))"
        "stdout s1 = stdout s"
        by blast
      from Cons.IH [OF rest, of s1] obtain s' where s':
        "read_loop e key s1 rs = (Blocked, s')"
        "map packed_from (sent s') = map packed_from (sent s1) @
            followups e (ids_drawn s1) (first_new (dom (services s1)) (enumeration_targets e key rs))"
        "ids_drawn s' = ids_drawn s1 + length (first_new (dom (services s1)) (enumeration_targets e key rs))"
        "dom (services s') = dom (services s1) \<union> set (enumeration_targets e key rs)"
        "stdout s' = stdout s1 @ service_lines e key rs"
        by blast
      have step: "read_loop e key s (r # rs) = read_loop e key s1 rs"
        using r Inr True s1(1) by simp
      have tg: "enumeration_targets e key (r # rs) = ptr_targets (Answer msg) @ enumeration_targets e key rs"
        "service_lines e key (r # rs) = service_lines e key rs"
        using d True by simp_all
      show ?thesis
        unfolding step tg using s' s1
        by (simp add: first_new_append followups_append Un_assoc)
    qed
  qed
qed

lemma enumeration_answers_failure:
  assumes pre: "enumeration_answers e s pre = (None, s1)"
    and new: "services s1 p = None"
    and fail: "Pack e (ptr_question (dns_Id e (ids_drawn s1)) p) = Inl err \<or>
       (\<exists>b. Pack e (ptr_question (dns_Id e (ids_drawn s1)) p) = Inr b \<and>
            WriteTo e (writes s1) b = Some err)"
  shows "\<exists>s'. enumeration_answers e s (pre @ PTR h p # post) = (Some err, s')
           \<and> services s' = (services s1)(p \<mapsto> ()) \<and> sent s' = sent s1 \<and> stdout s' = stdout s1"
proof -
  define s2 where
    "s2 = s1\<lparr>services := (services s1)(p \<mapsto> ()), ids_drawn := Suc (ids_drawn s1)\<rparr>"
  obtain r s3 where pw: "pack_and_write e s2 (ptr_question (dns_Id e (ids_drawn s1)) p) = (r, s3)"
    by (cases "pack_and_write e s2 (ptr_question (dns_Id e (ids_drawn s1)) p)")
  have "fst (pack_and_write e s2 (ptr_question (dns_Id e (ids_drawn s1)) p)) = Some err"
    unfolding pack_and_write_failure using fail by (simp add: s2_def)
  with pw have r: "r = Some err" by simp
  from pack_and_write_keeps [OF pw] pack_and_write_failure_sent [OF pw [unfolded r]]
  have k: "services s3 = (services s1)(p \<mapsto> ())" "sent s3 = sent s1" "stdout s3 = stdout s1"
    by (simp_all add: s2_def)
  have "enumeration_answers e s1 (PTR h p # post) = (Some err, s3)"
    using new pw r by (simp add: s2_def Let_def)
  with pre have "enumeration_answers e s (pre @ PTR h p # post) = (Some err, s3)"
    by (simp add: enumeration_answers_append)
  with k show ?thesis by blast
qed

lemma pack_and_write_cases:
  assumes "pack_and_write e s m = (r, s')"
  shows "services s' = services s \<and>
         (case r of
            Some err \<Rightarrow> sent s' = sent s
          | None \<Rightarrow> (\<exists>d. sent s' = sent s @ [d] \<and> asked [d] = map Name (Question m)))"
  using assms
  by (auto simp: pack_and_write_def asked_def split: sum.splits option.splits)

lemma enumeration_answers_at_most_once:
  "\<exists>ds. sent (snd (enumeration_answers e s as)) = sent s @ ds
      \<and> distinct (asked ds)
      \<and> set (asked ds) \<subseteq> set (ptr_targets as) - dom (services s)
      \<and> set (asked ds) \<subseteq> dom (services (snd (enumeration_answers e s as)))
      \<and> dom (services s) \<subseteq> dom (services (snd (enumeration_answers e s as)))"
proof (induction as arbitrary: s)
  case Nil
  show ?case by (simp add: asked_def)
next
  case (Cons a as)
  show ?case
  proof (cases a)
    case (PTR h p)
    show ?thesis
    proof (cases "services s p")
      case (Some u)
      from Cons.IH [of s] obtain ds where ds:
        "sent (snd (enumeration_answers e s as)) = sent s @ ds"
        "distinct (asked ds)" "set (asked ds) \<subseteq> set (ptr_targets as) - dom (services s)"
        "set (asked ds) \<subseteq> dom (services (snd (enumeration_answers e s as)))"
        "dom (services s) \<subseteq> dom (services (snd (enumeration_answers e s as)))"
        by blast
      have "enumeration_answers e s (a # as) = enumeration_answers e s as"
        using PTR Some by simp
      moreover have "set (asked ds) \<subseteq> set (ptr_targets (a # as)) - dom (services s)"
        using ds(3) PTR by auto
      ultimately show ?thesis using ds by auto
    next
      case None
      define s2 where
        "s2 = s\<lparr>services := (services s)(p \<mapsto> ()), ids_drawn := Suc (ids_drawn s)\<rparr>"
      obtain r s3 where pw: "pack_and_write e s2 (ptr_question (dns_Id e (ids_drawn s)) p) = (r, s3)"
        by (cases "pack_and_write e s2 (ptr_question (dns_Id e (ids_drawn s)) p)")
      from pack_and_write_cases [OF pw]
      have sv: "services s3 = (services s)(p \<mapsto> ())"
        and snt: "case r of Some err \<Rightarrow> sent s3 = sent s
                  | None \<Rightarrow> (\<exists>d. sent s3 = sent s @ [d] \<and> asked [d] = [p])"
        by (simp_all add: s2_def ptr_question_def split: option.splits)
      show ?thesis
      proof (cases r)
        case (Some err)
        with PTR None pw have "enumeration_answers e s (a # as) = (Some err, s3)"
          by (simp add: s2_def Let_def)
        moreover from snt Some have "sent s3 = sent s" by simp
        ultimately show ?thesis using sv by (auto simp: asked_def)
      next
        case rNone: None
        with PTR None pw have step: "enumeration_answers e s (a # as) = enumeration_answers e s3 as"
          by (simp add: s2_def Let_def)
        from snt rNone obtain d where a3: "sent s3 = sent s @ [d]" "asked [d] = [p]" by auto
        from Cons.IH [of s3] obtain ds where ds:
          "sent (snd (enumeration_answers e s3 as)) = sent s3 @ ds"
          "distinct (asked ds)" "set (asked ds) \<subseteq> set (ptr_targets as) - dom (services s3)"
          "set (asked ds) \<subseteq> dom (services (snd (enumeration_answers e s3 as)))"
          "dom (services s3) \<subseteq> dom (services (snd (enumeration_answers e s3 as)))"
          by blast
        have d3: "dom (services s3) = insert p (dom (services s))" using sv by simp
        have ask: "asked (d # ds) = p # asked ds"
          using a3(2) asked_append [of "[d]" ds] by simp
        have "sent (snd (enumeration_answers e s (a # as))) = sent s @ (d # ds)"
          unfolding step using ds(1) a3 by simp
        moreover have "distinct (asked (d # ds))" unfolding ask using ds(2,3) d3 by auto
        moreover have "set (asked (d # ds)) \<subseteq> set (ptr_targets (a # as)) - dom (services s)"
          unfolding ask using ds(3) d3 PTR None by auto
        moreover have "set (asked (d # ds)) \<subseteq> dom (services (snd (enumeration_answers e s (a # as))))"
          unfolding step ask using ds(4,5) d3 by auto
        moreover have "dom (services s) \<subseteq> dom (services (snd (enumeration_answers e s (a # as))))"
          unfolding step using ds(5) d3 by auto
        ultimately show ?thesis by blast
      qed
    qed
  qed (use Cons.IH [of s] in simp_all)
qed

lemma read_loop_at_most_once:
  "\<exists>ds. sent (snd (read_loop e key s rs)) = sent s @ ds
      \<and> distinct (asked ds)
      \<and> set (asked ds) \<subseteq> set (enumeration_targets e key rs) - dom (services s)
      \<and> set (asked ds) \<subseteq> dom (services (snd (read_loop e key s rs)))
      \<and> dom (services s) \<subseteq> dom (services (snd (read_loop e key s rs)))"
proof (induction rs arbitrary: s)
  case Nil
  show ?case by (simp add: asked_def)
next
  case (Cons r rs)
  show ?case
  proof (cases r)
    case (RecvErr err)
    then show ?thesis by (simp add: asked_def)
  next
    case (RecvOk buf addr)
    show ?thesis
    proof (cases "Unpack e buf")
      case (Inl err)
      with RecvOk have d: "decoded e r = None" by (simp add: decoded_def)
      from Cons.IH [of "s\<lparr>logged := logged s @ [bad_response addr err]\<rparr>"] RecvOk Inl d
      show ?thesis by simp
    next
      case (Inr msg)
      with RecvOk have d: "decoded e r = Some msg" by (simp add: decoded_def)
      show ?thesis
      proof (cases "MsgHdr_Id msg = key")
        case False
        from Cons.IH [of "s\<lparr>stdout := stdout s @ [output_line (assemble msg)]\<rparr>"] RecvOk Inr d False
        show ?thesis by simp
      next
        case True
        obtain r1 s1 where ea: "enumeration_answers e s (Answer msg) = (r1, s1)"
          by (cases "enumeration_answers e s (Answer msg)")
        from enumeration_answers_at_most_once [of e s "Answer msg"] ea
        obtain ds1 where ds1: "sent s1 = sent s @ ds1" "distinct (asked ds1)"
          "set (asked ds1) \<subseteq> set (ptr_targets (Answer msg)) - dom (services s)"
          "set (asked ds1) \<subseteq> dom (services s1)" "dom (services s) \<subseteq> dom (services s1)"
          by auto
        have tg: "enumeration_targets e key (r # rs) =
            ptr_targets (Answer msg) @ enumeration_targets e key rs"
          using d True by simp
        show ?thesis
        proof (cases r1)
          case (Some err)
          with RecvOk Inr True ea have "read_loop e key s (r # rs) = (Returned (Some err), s1)"
            by simp
          with ds1 tg show ?thesis by auto
        next
          case None
          with RecvOk Inr True ea have step: "read_loop e key s (r # rs) = read_loop e key s1 rs"
            by simp
          from Cons.IH [of s1] obtain ds2 where ds2:
            "sent (snd (read_loop e key s1 rs)) = sent s1 @ ds2"
            "distinct (asked ds2)"
            "set (asked ds2) \<subseteq> set (enumeration_targets e key rs) - dom (services s1)"
            "set (asked ds2) \<subseteq> dom (services (snd (read_loop e key s1 rs)))"
            "dom (services s1) \<subseteq> dom (services (snd (read_loop e key s1 rs)))"
            by blast
          have "sent (snd (read_loop e key s (r # rs))) = sent s @ (ds1 @ ds2)"
            unfolding step using ds1(1) ds2(1) by simp
          moreover have "distinct (asked (ds1 @ ds2))"
            unfolding asked_append using ds1(2,4) ds2(2,3) by auto
          moreover have "set (asked (ds1 @ ds2)) \<subseteq> set (enumeration_targets e key (r # rs)) - dom (services s)"
            unfolding tg asked_append using ds1(3,5) ds2(3) by auto
          moreover have "set (asked (ds1 @ ds2)) \<subseteq> dom (services (snd (read_loop e key s (r # rs))))"
            unfolding step asked_append using ds1(4) ds2(4,5) by auto
          moreover have "dom (services s) \<subseteq> dom (services (snd (read_loop e key s (r # rs))))"
            unfolding step using ds1(5) ds2(5) by auto
          ultimately show ?thesis by blast
        qed
      qed
    qed
  qed
qed

lemma query_at_most_once:
  "distinct (asked (tl (sent (snd (query e qname rs)))))
   \<and> set (asked (tl (sent (snd (query e qname rs))))) \<subseteq> set (enumeration_targets e (dns_Id e 0) rs)"
proof (cases "ListenPacket e")
  case (Some err)
  then show ?thesis by (simp add: query_def start_def asked_def)
next
  case None
  define s0 where "s0 = start\<lparr>ids_drawn := 1\<rparr>"
  obtain r s1 where pw: "pack_and_write e s0 (ptr_question (dns_Id e 0) qname) = (r, s1)"
    by (cases "pack_and_write e s0 (ptr_question (dns_Id e 0) qname)")
  show ?thesis
  proof (cases r)
    case (Some err)
    with pw have "sent s1 = []"
      by (auto simp: pack_and_write_def s0_def start_def split: sum.splits option.splits)
    moreover from None pw Some have "query e qname rs = (Returned (Some err), s1)"
      by (simp add: query_def s0_def Let_def)
    ultimately show ?thesis by (simp add: asked_def)
  next
    case rNone: None
    with pw obtain d where s1: "sent s1 = [d]"
      by (auto simp: pack_and_write_def s0_def start_def split: sum.splits option.splits)
    from None pw rNone have q: "query e qname rs = read_loop e (dns_Id e 0) s1 rs"
      by (simp add: query_def s0_def Let_def)
    from read_loop_at_most_once [of e "dns_Id e 0" s1 rs] obtain ds where ds:
      "sent (snd (read_loop e (dns_Id e 0) s1 rs)) = sent s1 @ ds"
      "distinct (asked ds)"
      "set (asked ds) \<subseteq> set (enumeration_targets e (dns_Id e 0) rs) - dom (services s1)"
      by blast
    from ds(1) s1 have "tl (sent (snd (query e qname rs))) = ds"
      unfolding q by simp
    with ds(2,3) show ?thesis by auto
  qed
qed

lemma pack_and_write_None:
  assumes "pack_and_write e s m = (None, s')"
  shows "\<exists>buf. Pack e m = Inr buf \<and> WriteTo e (writes s) buf = None
           \<and> s' = s\<lparr>writes := Suc (writes s),
                      sent := sent s @ [\<lparr>payload = buf, packed_from = m, dest = mdnsAddr4\<rparr>]\<rparr>"
  using assms by (auto simp: pack_and_write_def split: sum.splits option.splits)

lemma pack_and_write_success:
  assumes "Pack e m = Inr buf" and "WriteTo e (writes s) buf = None"
  shows "pack_and_write e s m =
           (None, s\<lparr>writes := Suc (writes s),
                    sent := sent s @ [\<lparr>payload = buf, packed_from = m, dest = mdnsAddr4\<rparr>]\<rparr>)"
  using assms by (simp add: pack_and_write_def)

lemma enumeration_answers_exact:
  "enumeration_answers e s as = (None, s') \<Longrightarrow>
     map packed_from (sent s') =
       map packed_from (sent s) @
       followups e (ids_drawn s) (first_new (dom (services s)) (ptr_targets as))
     \<and> ids_drawn s' = ids_drawn s + length (first_new (dom (services s)) (ptr_targets as))
     \<and> dom (services s') = dom (services s) \<union> set (ptr_targets as)
     \<and> stdout s' = stdout s"
proof (induction as arbitrary: s)
  case Nil
  then show ?case by (simp add: followups_Nil)
next
  case (Cons a as)
  show ?case
  proof (cases a)
    case (PTR h p)
    show ?thesis
    proof (cases "services s p")
      case (Some u)
      then have "p \<in> dom (services s)" by auto
      moreover from Cons.prems PTR Some have "enumeration_answers e s as = (None, s')" by simp
      ultimately show ?thesis using Cons.IH [of s] PTR
        by (auto simp: insert_absorb)
    next
      case None
      define s2 where
        "s2 = s\<lparr>services := (services s)(p \<mapsto> ()), ids_drawn := Suc (ids_drawn s)\<rparr>"
      obtain r s3 where pw: "pack_and_write e s2 (ptr_question (dns_Id e (ids_drawn s)) p) = (r, s3)"
        by (cases "pack_and_write e s2 (ptr_question (dns_Id e (ids_drawn s)) p)")
      from Cons.prems PTR None pw have r: "r = None" and rest: "enumeration_answers e s3 as = (None, s')"
        by (auto simp: s2_def Let_def split: option.splits)
      from pack_and_write_None [OF pw [unfolded r]] obtain buf where
        s3: "s3 = s2\<lparr>writes := Suc (writes s2),
                sent := sent s2 @ [\<lparr>payload = buf,
                   packed_from = ptr_question (dns_Id e (ids_drawn s)) p, dest = mdnsAddr4\<rparr>]\<rparr>"
        by blast
      have notin: "p \<notin> dom (services s)" using None by auto
      have s3f: "dom (services s3) = insert p (dom (services s))" "ids_drawn s3 = Suc (ids_drawn s)"
        "map packed_from (sent s3) = map packed_from (sent s) @ [ptr_question (dns_Id e (ids_drawn s)) p]"
        "stdout s3 = stdout s"
        by (simp_all add: s3 s2_def)
      from Cons.IH [OF rest] s3f notin PTR show ?thesis
        by (simp add: followups_Cons)
    qed
  qed (use Cons.IH [of s] Cons.prems in simp_all)
qed

lemma read_loop_exact:
  "read_loop e key s rs = (Blocked, s') \<Longrightarrow>
     list_all received rs
     \<and> map packed_from (sent s') =
         map packed_from (sent s) @
         followups e (ids_drawn s) (first_new (dom (services s)) (enumeration_targets e key rs))
     \<and> ids_drawn s' = ids_drawn s + length (first_new (dom (services s)) (enumeration_targets e key rs))
     \<and> dom (services s') = dom (services s) \<union> set (enumeration_targets e key rs)
     \<and> stdout s' = stdout s @ service_lines e key rs"
proof (induction rs arbitrary: s)
  case Nil
  then show ?case by (simp add: followups_Nil)
next
  case (Cons r rs)
  show ?case
  proof (cases r)
    case (RecvErr err)
    with Cons.prems show ?thesis by (simp split: if_splits)
  next
    case (RecvOk buf addr)
    show ?thesis
    proof (cases "Unpack e buf")
      case (Inl err)
      with RecvOk have d: "decoded e r = None" by (simp add: decoded_def)
      from Cons.prems RecvOk Inl
      have "read_loop e key (s\<lparr>logged := logged s @ [bad_response addr err]\<rparr>) rs = (Blocked, s')"
        by simp
      from Cons.IH [OF this] RecvOk d show ?thesis by simp
    next
      case (Inr msg)
      with RecvOk have d: "decoded e r = Some msg" by (simp add: decoded_def)
      show ?thesis
      proof (cases "MsgHdr_Id msg = key")
        case False
        with Cons.prems RecvOk Inr
        have "read_loop e key (s\<lparr>stdout := stdout s @ [output_line (assemble msg)]\<rparr>) rs = (Blocked, s')"
          by simp
        from Cons.IH [OF this] RecvOk d False show ?thesis by simp
      next
        case True
        obtain r1 s1 where ea: "enumeration_answers e s (Answer msg) = (r1, s1)"
          by (cases "enumeration_answers e s (Answer msg)")
        from Cons.prems RecvOk Inr True ea have r1: "r1 = None"
          and rest: "read_loop e key s1 rs = (Blocked, s')"
          by (auto split: option.splits)
        note a = enumeration_answers_exact [OF ea [unfolded r1]]
        note b = Cons.IH [OF rest]
        have tg: "enumeration_targets e key (r # rs) = ptr_targets (Answer msg) @ enumeration_targets e key rs"
          "service_lines e key (r # rs) = service_lines e key rs"
          using d True by simp_all
        show ?thesis
          unfolding tg using a b RecvOk
          by (simp add: first_new_append followups_append Un_assoc)
      qed
    qed
  qed
qed

lemma read_loop_append:
  "read_loop e key s pre = (Blocked, s') \<Longrightarrow>
     read_loop e key s (pre @ rest) = read_loop e key s' rest"
proof (induction pre arbitrary: s)
  case Nil
  then show ?case by simp
next
  case (Cons r rs)
  show ?case
  proof (cases r)
    case (RecvErr err)
    with Cons.prems show ?thesis by (simp split: if_splits)
  next
    case (RecvOk buf addr)
    with Cons.prems Cons.IH show ?thesis
      by (auto split: sum.splits prod.splits option.splits if_splits)
  qed
qed

lemma query_sent:
  assumes "ListenPacket e = None" and "Pack e (ptr_question (dns_Id e 0) qname) = Inr b"
    and "WriteTo e 0 b = None"
  shows "query e qname rs = read_loop e (dns_Id e 0) (enumeration_sent e qname b) rs"
  using assms
  by (simp add: query_def pack_and_write_def start_def enumeration_sent_def Let_def)

lemma query_Blocked:
  assumes "fst (query e qname rs) = Blocked"
  shows "\<exists>b. ListenPacket e = None \<and> Pack e (ptr_question (dns_Id e 0) qname) = Inr b
           \<and> WriteTo e 0 b = None"
  using assms
  by (auto simp: query_def pack_and_write_def start_def Let_def split: option.splits sum.splits)

lemma enumeration_answers_error_origin:
  "enumeration_answers e s as = (Some err, s') \<Longrightarrow>
     (\<exists>m. Pack e m = Inl err) \<or> (\<exists>m b k. Pack e m = Inr b \<and> WriteTo e k b = Some err)"
proof (induction as arbitrary: s)
  case Nil
  then show ?case by simp
next
  case (Cons a as)
  show ?case
  proof (cases a)
    case (PTR h p)
    show ?thesis
    proof (cases "services s p")
      case (Some u)
      with Cons.prems PTR have "enumeration_answers e s as = (Some err, s')" by simp
      then show ?thesis by (rule Cons.IH)
    next
      case None
      define s2 where
        "s2 = s\<lparr>services := (services s)(p \<mapsto> ()), ids_drawn := Suc (ids_drawn s)\<rparr>"
      obtain r s3 where pw: "pack_and_write e s2 (ptr_question (dns_Id e (ids_drawn s)) p) = (r, s3)"
        by (cases "pack_and_write e s2 (ptr_question (dns_Id e (ids_drawn s)) p)")
      show ?thesis
      proof (cases r)
        case rNone: None
        with Cons.prems PTR None pw have "enumeration_answers e s3 as = (Some err, s')"
          by (simp add: s2_def Let_def)
        then show ?thesis by (rule Cons.IH)
      next
        case (Some err')
        with Cons.prems PTR None pw have "err' = err"
          by (simp add: s2_def Let_def)
        with pw Some
        have "fst (pack_and_write e s2 (ptr_question (dns_Id e (ids_drawn s)) p)) = Some err"
          by simp
        then show ?thesis unfolding pack_and_write_failure by blast
      qed
    qed
  qed (use Cons.IH [of s] Cons.prems in simp_all)
qed

lemma read_loop_outcome:
  "list_all received rs \<Longrightarrow>
     fst (read_loop e key s rs) = Blocked \<or>
     (\<exists>err. fst (read_loop e key s rs) = Returned (Some err) \<and>
        ((\<exists>m. Pack e m = Inl err) \<or> (\<exists>m b k. Pack e m = Inr b \<and> WriteTo e k b = Some err)))"
proof (induction rs arbitrary: s)
  case Nil
  show ?case by simp
next
  case (Cons r rs)
  from Cons.prems obtain buf addr where r: "r = RecvOk buf addr" and rest: "list_all received rs"
    by (cases r) auto
  show ?case
  proof (cases "Unpack e buf")
    case (Inl err)
    with r Cons.IH [OF rest] show ?thesis by simp
  next
    case (Inr msg)
    show ?thesis
    proof (cases "MsgHdr_Id msg = key")
      case False
      with r Inr Cons.IH [OF rest] show ?thesis by simp
    next
      case True
      obtain r1 s1 where ea: "enumeration_answers e s (Answer msg) = (r1, s1)"
        by (cases "enumeration_answers e s (Answer msg)")
      show ?thesis
      proof (cases r1)
        case None
        with r Inr True ea Cons.IH [OF rest, of s1] show ?thesis by simp
      next
        case (Some err)
        with r Inr True ea have "fst (read_loop e key s (r # rs)) = Returned (Some err)" by simp
        moreover from enumeration_answers_error_origin [OF ea [unfolded Some]]
        have "(\<exists>m. Pack e m = Inl err) \<or> (\<exists>m b k. Pack e m = Inr b \<and> WriteTo e k b = Some err)" .
        ultimately show ?thesis by blast
      qed
    qed
  qed
qed

lemma query_outcome:
  assumes "list_all received rs"
  shows "fst (query e qname rs) = Blocked \<or>
     (\<exists>err. fst (query e qname rs) = Returned (Some err) \<and>
        (ListenPacket e = Some err \<or> (\<exists>m. Pack e m = Inl err) \<or>
         (\<exists>m b k. Pack e m = Inr b \<and> WriteTo e k b = Some err)))"
proof (cases "ListenPacket e")
  case (Some err)
  then show ?thesis by (simp add: query_def)
next
  case None
  show ?thesis
  proof (cases "Pack e (ptr_question (dns_Id e 0) qname)")
    case (Inl err)
    with None have "fst (query e qname rs) = Returned (Some err)"
      by (simp add: query_def pack_and_write_def)
    with Inl show ?thesis by blast
  next
    case (Inr b)
    show ?thesis
    proof (cases "WriteTo e 0 b")
      case (Some err)
      with None Inr have "fst (query e qname rs) = Returned (Some err)"
        by (simp add: query_def pack_and_write_def start_def)
      with Inr Some show ?thesis by blast
    next
      case wNone: None
      from read_loop_outcome [OF assms, of e "dns_Id e 0" "enumeration_sent e qname b"]
      show ?thesis unfolding query_sent [OF None Inr wNone] by blast
    qed
  qed
qed

lemma never_fails_example_env: "never_fails example_env"
  by (simp add: never_fails_def example_env_def)


lemma example_env_fields:
  "ListenPacket example_env = None" "dns_Id example_env k = 100 + of_nat k"
  by (simp_all add: example_env_def)

lemma Unpack_example_env:
  "Unpack example_env [1] = Inr (enumeration_response 100)"
  "Unpack example_env [2] = Inr (example_response 7)"
  "Unpack example_env [] = Inl (Failure ''dns: overflow unpacking uint16'')"
  by (simp_all add: example_env_def)


lemma decoded_example_env3:
  "decoded example_env (RecvOk [3] a) = Some (address_response 8)"
  by (simp add: decoded_def example_env_def)

lemma output_line_address_response:
  "output_line (assemble (address_response i)) = [CHR 0x09, CHR 0x09, CHR 0x09, CHR 0x0A]"
  by (simp add: address_response_def assemble_def no_instance_def output_line_def)

lemma failing_env_fields:
  "ListenPacket failing_env = None" "dns_Id failing_env k = 100 + of_nat k"
  "Pack failing_env m = Inr [ucast (MsgHdr_Id m)]"
  "Unpack failing_env [1] = Inr (enumeration_response 100)"
  "WriteTo failing_env k b = (if k = 2 then Some (Failure ''network is unreachable'') else None)"
  by (simp_all add: failing_env_def example_env_def)

lemma failing_env_first_answers:
  "enumeration_answers failing_env after_first_write
      [PTR ''_services._dns-sd._udp.local.'' ''_http._tcp.local.'',
       SRV ''My Printer._http._tcp.local.'' ''printer.local.'' 631]
    = (None, \<lparr>services = [''_http._tcp.local.'' \<mapsto> ()], ids_drawn = 2, writes = 2,
              sent = [\<lparr>payload = [101], packed_from = ptr_question 101 ''_http._tcp.local.'',
                       dest = mdnsAddr4\<rparr>],
              stdout = [], logged = []\<rparr>)"
  by (simp add: failing_env_fields after_first_write_def start_def pack_and_write_def
      ptr_question_def)

lemma failing_env_second_send:
  fixes s1 :: state
  assumes "s1 = \<lparr>services = [''_http._tcp.local.'' \<mapsto> ()], ids_drawn = 2, writes = 2,
              sent = [\<lparr>payload = [101], packed_from = ptr_question 101 ''_http._tcp.local.'',
                       dest = mdnsAddr4\<rparr>],
              stdout = [], logged = []\<rparr>"
  shows "services s1 ''_ipp._tcp.local.'' = None"
    and "Pack failing_env (ptr_question (dns_Id failing_env (ids_drawn s1)) ''_ipp._tcp.local.'')
          = Inr [102]"
    and "WriteTo failing_env (writes s1) [102] = Some (Failure ''network is unreachable'')"
  by (simp_all add: assms failing_env_fields ptr_question_def)

lemma fqdn_env_fields:
  "ListenPacket fqdn_env = None" "dns_Id fqdn_env k = 100 + of_nat k"
  "Pack fqdn_env (ptr_question i ''_services._dns-sd._udp.local.'') = Inr [ucast i]"
  "Pack fqdn_env (ptr_question i ''_http._tcp.local.'') = Inr [ucast i]"
  "Pack fqdn_env (ptr_question i ''_ipp._tcp.local.'') = Inr [ucast i]"
  "Pack fqdn_env (ptr_question i ''printer'') = Inl (Failure ''dns: domain must be fully qualified'')"
  "Unpack fqdn_env [1] = Inr (enumeration_response 100)"
  "Unpack fqdn_env [2] = Inr (example_response 7)"
  "WriteTo fqdn_env k b = None"
  by (simp_all add: fqdn_env_def example_env_def ptr_question_def)

text \<open>
  The environment \<open>fqdn_env\<close> is not one in which nothing ever fails; the run below does
  not fail in it all the same.
\<close>

lemma not_never_fails_fqdn_env: "\<not> never_fails fqdn_env"
proof
  assume "never_fails fqdn_env"
  then obtain b where "Pack fqdn_env (ptr_question 0 ''printer'') = Inr b"
    unfolding never_fails_def by blast
  then show False by (simp add: fqdn_env_fields)
qed

lemma fqdn_env_run:
  "fst (query fqdn_env ''_services._dns-sd._udp.local.''
     [RecvOk [1] ''192.168.1.5:5353'', RecvOk [2] ''192.168.1.5:5353'',
      RecvOk [1] ''192.168.1.6:5353'']) = Blocked"
  by (simp add: query_sent [OF fqdn_env_fields(1) fqdn_env_fields(3) fqdn_env_fields(9)]
      fqdn_env_fields enumeration_sent_def start_def enumeration_response_def
      example_response_def pack_and_write_def Let_def)

lemma failing_env_run:
  "query failing_env ''_services._dns-sd._udp.local.'' [RecvOk [1] ''192.168.1.5:5353''] =
     (Returned (Some (Failure ''network is unreachable'')),
      \<lparr>services = [''_http._tcp.local.'' \<mapsto> (), ''_ipp._tcp.local.'' \<mapsto> ()],
       ids_drawn = 3, writes = 3,
       sent = [\<lparr>payload = [100], packed_from = ptr_question 100 ''_services._dns-sd._udp.local.'',
                 dest = mdnsAddr4\<rparr>,
               \<lparr>payload = [101], packed_from = ptr_question 101 ''_http._tcp.local.'',
                 dest = mdnsAddr4\<rparr>],
       stdout = [], logged = []\<rparr>)"
  by (simp add: query_def failing_env_fields start_def enumeration_response_def
      pack_and_write_def Let_def ptr_question_def)

lemma unreachable_env_fields:
  "ListenPacket unreachable_env = None"
  "Pack unreachable_env (ptr_question (dns_Id unreachable_env 0) ''_services._dns-sd._udp.local.'')
     = Inr [100]"
  "WriteTo unreachable_env k b = Some (Failure ''network is unreachable'')"
  by (simp_all add: unreachable_env_def example_env_def ptr_question_def)

lemma example_env_enumeration_query:
  "Pack example_env (ptr_question (dns_Id example_env 0) ''_services._dns-sd._udp.local.'')
     = Inr [100]"
  "WriteTo example_env k b = None"
  by (simp_all add: example_env_def ptr_question_def)

lemma failing_env_enumeration_query:
  "Pack failing_env (ptr_question (dns_Id failing_env 0) ''_services._dns-sd._udp.local.'')
     = Inr [100]"
  "WriteTo failing_env 0 [100] = None"
  by (simp_all add: failing_env_fields ptr_question_def)

lemma failing_env_sent_first_answers:
  fixes s1 :: state
  assumes "s1 = \<lparr>services = [''_http._tcp.local.'' \<mapsto> ()], ids_drawn = 2, writes = 2,
              sent = [\<lparr>payload = [100],
                       packed_from = ptr_question 100 ''_services._dns-sd._udp.local.'',
                       dest = mdnsAddr4\<rparr>,
                      \<lparr>payload = [101], packed_from = ptr_question 101 ''_http._tcp.local.'',
                       dest = mdnsAddr4\<rparr>],
              stdout = [], logged = []\<rparr>"
  shows "enumeration_answers failing_env
           (enumeration_sent failing_env ''_services._dns-sd._udp.local.'' [100])
           [PTR ''_services._dns-sd._udp.local.'' ''_http._tcp.local.'',
            SRV ''My Printer._http._tcp.local.'' ''printer.local.'' 631] = (None, s1)"
    and "services s1 ''_ipp._tcp.local.'' = None"
    and "Pack failing_env (ptr_question (dns_Id failing_env (ids_drawn s1)) ''_ipp._tcp.local.'')
          = Inr [102]"
    and "WriteTo failing_env (writes s1) [102] = Some (Failure ''network is unreachable'')"
  by (simp_all add: assms failing_env_fields enumeration_sent_def start_def pack_and_write_def
      ptr_question_def)

lemma Unpack_decoder_env:
  "Unpack decoder_env [2] = Inr (decoded_example_response 7 My_Printer)"
  by (simp add: decoder_env_def)

subsection \<open>The record assembler over a list of records\<close>

lemma assemble_rr_name: "\<not> is_PTR r \<Longrightarrow> name (assemble_rr v r) = name v"
  by (cases r) simp_all

lemma assemble_rr_labels:
  "\<not> sets_labels r \<Longrightarrow> service (assemble_rr v r) = service v \<and> proto (assemble_rr v r) = proto v"
  by (cases r) (auto simp: label_shape_def Let_def)

lemma assemble_rr_host: "\<not> is_SRV r \<Longrightarrow> host (assemble_rr v r) = host v"
  by (cases r) (simp_all add: Let_def)

lemma foldl_assemble_rr_name:
  "\<forall>r\<in>set rs. \<not> is_PTR r \<Longrightarrow> name (foldl assemble_rr v rs) = name v"
  by (induction rs arbitrary: v) (simp_all add: assemble_rr_name)

lemma foldl_assemble_rr_labels:
  "\<forall>r\<in>set rs. \<not> sets_labels r \<Longrightarrow>
     service (foldl assemble_rr v rs) = service v \<and> proto (foldl assemble_rr v rs) = proto v"
  by (induction rs arbitrary: v) (simp_all add: assemble_rr_labels)

lemma foldl_assemble_rr_host:
  "\<forall>r\<in>set rs. \<not> is_SRV r \<Longrightarrow> host (foldl assemble_rr v rs) = host v"
  by (induction rs arbitrary: v) (simp_all add: assemble_rr_host)

lemma foldl_assemble_rr_addrs:
  "addrs (foldl assemble_rr v rs) = addrs v @ address_texts rs"
proof (induction rs arbitrary: v)
  case Nil
  show ?case by simp
next
  case (Cons r rs)
  show ?case by (cases r) (simp_all add: Cons.IH Let_def)
qed

lemma assemble_rr_PTR_name: "name (assemble_rr v (PTR h p)) = name (assemble_rr w (PTR h p))"
  by (simp add: Let_def)

lemma assemble_rr_PTR_labels:
  "label_shape h \<Longrightarrow>
     service (assemble_rr v (PTR h p)) = service (assemble_rr w (PTR h p)) \<and>
     proto (assemble_rr v (PTR h p)) = proto (assemble_rr w (PTR h p))"
  by (simp add: label_shape_def Let_def)

lemma assemble_rr_SRV_host: "host (assemble_rr v (SRV h t p)) = host (assemble_rr w (SRV h t p))"
  by simp

lemma foldl_assemble_rr_last_PTR:
  assumes "\<forall>r\<in>set post. \<not> is_PTR r"
  shows "name (foldl assemble_rr v (pre @ PTR h p # post)) = name (assemble_rr w (PTR h p))"
proof -
  have "name (foldl assemble_rr v (pre @ PTR h p # post)) =
        name (assemble_rr (foldl assemble_rr v pre) (PTR h p))"
    using foldl_assemble_rr_name [OF assms] by simp
  then show ?thesis using assemble_rr_PTR_name by simp
qed

lemma foldl_assemble_rr_last_labels:
  assumes "label_shape h" and "\<forall>r\<in>set post. \<not> sets_labels r"
  shows "service (foldl assemble_rr v (pre @ PTR h p # post)) = service (assemble_rr w (PTR h p))"
    and "proto (foldl assemble_rr v (pre @ PTR h p # post)) = proto (assemble_rr w (PTR h p))"
proof -
  have "service (foldl assemble_rr v (pre @ PTR h p # post)) =
        service (assemble_rr (foldl assemble_rr v pre) (PTR h p))"
    and "proto (foldl assemble_rr v (pre @ PTR h p # post)) =
        proto (assemble_rr (foldl assemble_rr v pre) (PTR h p))"
    using foldl_assemble_rr_labels [OF assms(2)] by simp_all
  with assemble_rr_PTR_labels [OF assms(1), of "foldl assemble_rr v pre" p w]
  show "service (foldl assemble_rr v (pre @ PTR h p # post)) = service (assemble_rr w (PTR h p))"
    and "proto (foldl assemble_rr v (pre @ PTR h p # post)) = proto (assemble_rr w (PTR h p))"
    by simp_all
qed

lemma foldl_assemble_rr_last_SRV:
  assumes "\<forall>r\<in>set post. \<not> is_SRV r"
  shows "host (foldl assemble_rr v (pre @ SRV h t p # post)) = host (assemble_rr w (SRV h t p))"
  using foldl_assemble_rr_host [OF assms] by simp

lemma label_shape_examples:
  "label_shape ''_http._tcp.local.''" "\<not> label_shape ''_printer._sub._http._tcp.local.''"
  by (simp_all add: label_shape_def Trim_def)

lemma decimal_80: "decimal 80 = ''80''"
  by code_simp

lemma decimal_631: "decimal 631 = ''631''"
  by code_simp

lemma assemble_example:
  "assemble (example_response i) =
     \<lparr>name = ''My Printer'', host = ''printer.local:631'', service = ''http'', proto = ''tcp'',
      addrs = [''192.168.1.5'']\<rparr>"
  by (simp add: example_response_def assemble_def no_instance_def TrimSuffix_def HasSuffix_def
      Trim_def decimal_631)

lemma assemble_decoded_example:
  "assemble (decoded_example_response i leaf) =
     \<lparr>name = leaf, host = ''printer.local:631'', service = ''http'', proto = ''tcp'',
      addrs = [''192.168.1.5'']\<rparr>"
proof -
  have n: "TrimSuffix (leaf @ ''._http._tcp.local.'') (''.'' @ ''_http._tcp.local.'') = leaf"
    using TrimSuffix_append [of leaf "''._http._tcp.local.''"] by simp
  have h: "TrimSuffix ''printer.local.'' ''.'' = ''printer.local''"
    by (simp add: TrimSuffix_def HasSuffix_def)
  have t: "Trim ''_http._tcp.local.'' ''.'' = ''_http._tcp.local''"
    "Trim ''_http'' ''_'' = ''http''" "Trim ''_tcp'' ''_'' = ''tcp''"
    by (simp_all add: Trim_def)
  have sp: "Split ''_http._tcp.local'' CHR ''.'' = [''_http'', ''_tcp'', ''local'']"
    by simp
  show ?thesis
    using n by (simp add: decoded_example_response_def assemble_def no_instance_def h t sp decimal_631)
qed

lemma example_env_one_line:
  "read_loop example_env (dns_Id example_env 0)
     (enumeration_sent example_env ''_services._dns-sd._udp.local.'' [100])
     [RecvOk [2] ''192.168.1.5:5353'']
   = (Blocked, (enumeration_sent example_env ''_services._dns-sd._udp.local.'' [100])
        \<lparr>stdout := [''tcp'' @ [CHR 0x09] @ ''http'' @ [CHR 0x09] @ ''printer.local:631'' @
                      [CHR 0x09] @ ''My Printer'' @ [CHR 0x0A]]\<rparr>)"
proof -
  have "MsgHdr_Id (example_response 7) \<noteq> dns_Id example_env 0"
    by (simp add: example_response_def example_env_fields)
  then show ?thesis
    by (simp add: Unpack_example_env assemble_example output_line_def enumeration_sent_def
        start_def)
qed

subsection \<open>The pointer case of the record assembler\<close>

text \<open>
  Claim C4, as amended. A pointer record sets the two labels if and only if its subject
  name, with the dots at both ends removed, is \<open>a.b.local\<close> for two dot-free strings \<open>a\<close>
  and \<open>b\<close> (the test does not ask that they be non-empty). Then the service label is \<open>a\<close>
  and the protocol label is \<open>b\<close>, each with the underscores at both ends removed. For
  every other subject name both labels keep the value they had.
\<close>

theorem ptr_labels:
  "(\<forall>a b. CHR ''.'' \<notin> set a \<longrightarrow> CHR ''.'' \<notin> set b \<longrightarrow> Trim h ''.'' = a @ ''.'' @ b @ ''.local'' \<longrightarrow>
       service (assemble_rr v (PTR h p)) = Trim a ''_'' \<and>
       proto (assemble_rr v (PTR h p)) = Trim b ''_'')
   \<and> ((\<nexists>a b. CHR ''.'' \<notin> set a \<and> CHR ''.'' \<notin> set b \<and> Trim h ''.'' = a @ ''.'' @ b @ ''.local'') \<longrightarrow>
       service (assemble_rr v (PTR h p)) = service v \<and>
       proto (assemble_rr v (PTR h p)) = proto v)"
proof (intro conjI allI impI)
  fix a b
  assume ab: "CHR ''.'' \<notin> set a" "CHR ''.'' \<notin> set b" "Trim h ''.'' = a @ ''.'' @ b @ ''.local''"
  have parts: "Split (Trim h ''.'') CHR ''.'' = [a, b, ''local'']"
    using Split_three_parts [of "CHR ''.''" a b "''local''"] ab by simp
  show "service (assemble_rr v (PTR h p)) = Trim a ''_''"
    by (simp add: parts)
  show "proto (assemble_rr v (PTR h p)) = Trim b ''_''"
    by (simp add: parts)
next
  assume "\<nexists>a b. CHR ''.'' \<notin> set a \<and> CHR ''.'' \<notin> set b \<and> Trim h ''.'' = a @ ''.'' @ b @ ''.local''"
  then have no: "\<not> label_shape h"
    by (simp add: label_shape_iff)
  then show "service (assemble_rr v (PTR h p)) = service v"
    by (auto simp: label_shape_def Let_def)
  from no show "proto (assemble_rr v (PTR h p)) = proto v"
    by (auto simp: label_shape_def Let_def)
qed

text \<open>
  The theorem at two subject names: \<^verbatim>\<open>_http._tcp.local.\<close> gives the labels \<^verbatim>\<open>http\<close> and
  \<^verbatim>\<open>tcp\<close>; the five-component name of a subtype leaves the labels empty.
\<close>

theorem ptr_labels_witness:
  "Trim ''_http._tcp.local.'' ''.'' = ''_http'' @ ''.'' @ ''_tcp'' @ ''.local''
   \<and> service (assemble_rr no_instance (PTR ''_http._tcp.local.'' ''My Printer._http._tcp.local.'')) = ''http''
   \<and> proto (assemble_rr no_instance (PTR ''_http._tcp.local.'' ''My Printer._http._tcp.local.'')) = ''tcp''
   \<and> (\<nexists>a b. CHR ''.'' \<notin> set a \<and> CHR ''.'' \<notin> set b \<and>
          Trim ''_printer._sub._http._tcp.local.'' ''.'' = a @ ''.'' @ b @ ''.local'')
   \<and> service (assemble_rr no_instance (PTR ''_printer._sub._http._tcp.local.'' ''x'')) = []
   \<and> proto (assemble_rr no_instance (PTR ''_printer._sub._http._tcp.local.'' ''x'')) = []"
proof -
  have t: "Trim ''_http._tcp.local.'' ''.'' = ''_http'' @ ''.'' @ ''_tcp'' @ ''.local''"
    by (simp add: Trim_def)
  have n: "\<nexists>a b. CHR ''.'' \<notin> set a \<and> CHR ''.'' \<notin> set b \<and>
          Trim ''_printer._sub._http._tcp.local.'' ''.'' = a @ ''.'' @ b @ ''.local''"
    unfolding label_shape_iff [symmetric] by (simp add: label_shape_def Trim_def)
  from ptr_labels [of "''_http._tcp.local.''" no_instance "''My Printer._http._tcp.local.''",
      THEN conjunct1, rule_format, of "''_http''" "''_tcp''"] t
  have "service (assemble_rr no_instance (PTR ''_http._tcp.local.'' ''My Printer._http._tcp.local.''))
          = Trim ''_http'' ''_''
      \<and> proto (assemble_rr no_instance (PTR ''_http._tcp.local.'' ''My Printer._http._tcp.local.''))
          = Trim ''_tcp'' ''_''"
    by simp
  moreover have "Trim ''_http'' ''_'' = ''http''" "Trim ''_tcp'' ''_'' = ''tcp''"
    by (simp_all add: Trim_def)
  moreover from ptr_labels [of "''_printer._sub._http._tcp.local.''" no_instance "''x''",
      THEN conjunct2, rule_format, OF n]
  have "service (assemble_rr no_instance (PTR ''_printer._sub._http._tcp.local.'' ''x'')) = []
      \<and> proto (assemble_rr no_instance (PTR ''_printer._sub._http._tcp.local.'' ''x'')) = []"
    by (simp add: no_instance_def)
  ultimately show ?thesis using t n by simp
qed

text \<open>
  Claim C4 as stated fails twice. The component \<^verbatim>\<open>_a_\<close> loses its trailing underscore
  too, so the service label is not the component with its leading underscores stripped.
  And the subject \<^verbatim>\<open>a..local.\<close> has an empty component, yet its service label is set.
\<close>

theorem ptr_labels_as_stated_counterexample:
  "service (assemble_rr no_instance (PTR ''_a_._tcp.local.'' ''x._a_._tcp.local.''))
     \<noteq> ''a_''
   \<and> [] \<in> set (Split (Trim ''a..local.'' ''.'') CHR ''.'')
   \<and> service (assemble_rr no_instance (PTR ''a..local.'' ''x.a..local.'')) \<noteq> service no_instance"
  by (simp add: Trim_def no_instance_def)

text \<open>
  Claim C6, as amended. The instance name of a pointer record is its target without the
  suffix made of a dot and the whole subject name, trailing dot included: a target
  \<open>leaf.subject\<close> gives \<open>leaf\<close>, and a target that does not end so is kept whole.
\<close>

theorem ptr_instance_name:
  "(\<forall>leaf. p = leaf @ ''.'' @ h \<longrightarrow> name (assemble_rr v (PTR h p)) = leaf)
   \<and> (\<not> suffix (''.'' @ h) p \<longrightarrow> name (assemble_rr v (PTR h p)) = p)"
proof (intro conjI allI impI)
  fix leaf assume "p = leaf @ ''.'' @ h"
  then show "name (assemble_rr v (PTR h p)) = leaf"
    using TrimSuffix_append [of leaf "''.'' @ h"] by (simp add: Let_def)
next
  assume "\<not> suffix (''.'' @ h) p"
  then show "name (assemble_rr v (PTR h p)) = p"
    using TrimSuffix_no_suffix [of "''.'' @ h" p] by (simp add: Let_def)
qed

text \<open>
  The theorem at the target of the example, and at a target that does not end in the
  subject name.
\<close>

theorem ptr_instance_name_witness:
  "''My Printer._http._tcp.local.'' = ''My Printer'' @ ''.'' @ ''_http._tcp.local.''
   \<and> name (assemble_rr no_instance (PTR ''_http._tcp.local.'' ''My Printer._http._tcp.local.'')) = ''My Printer''
   \<and> \<not> suffix (''.'' @ ''_http._tcp.local.'') ''printer.local.''
   \<and> name (assemble_rr no_instance (PTR ''_http._tcp.local.'' ''printer.local.'')) = ''printer.local.''"
proof -
  have s: "\<not> suffix (''.'' @ ''_http._tcp.local.'') ''printer.local.''"
    by (simp add: suffix_def)
  from ptr_instance_name [of "''My Printer._http._tcp.local.''" "''_http._tcp.local.''" no_instance,
      THEN conjunct1, rule_format, of "''My Printer''"]
  have "name (assemble_rr no_instance (PTR ''_http._tcp.local.'' ''My Printer._http._tcp.local.'')) = ''My Printer''"
    by simp
  moreover from ptr_instance_name [of "''printer.local.''" "''_http._tcp.local.''" no_instance,
      THEN conjunct2, rule_format, OF s]
  have "name (assemble_rr no_instance (PTR ''_http._tcp.local.'' ''printer.local.'')) = ''printer.local.''" .
  ultimately show ?thesis using s by simp
qed

text \<open>
  Claim C6 as stated fails on the specification's own example: the subject minus its
  trailing dot is no suffix of the target, which ends in a dot, so stripping it leaves
  the whole target, where the code yields \<^verbatim>\<open>My Printer\<close>. Read the other way, with the
  subject stripped and the trailing dot taken off what is left, it fails too: the target
  \<^verbatim>\<open>mylocal.\<close> under the subject \<^verbatim>\<open>local.\<close> is kept whole by the code.
\<close>

theorem ptr_instance_name_as_stated_counterexample:
  "name (assemble_rr no_instance (PTR ''_http._tcp.local.'' ''My Printer._http._tcp.local.''))
     \<noteq> instance_name_as_specified ''My Printer._http._tcp.local.'' ''_http._tcp.local.''
   \<and> name (assemble_rr no_instance (PTR ''local.'' ''mylocal.''))
     \<noteq> leaf_as_specified ''mylocal.'' ''local.''"
  by (simp add: instance_name_as_specified_def leaf_as_specified_def TrimSuffix_def
      HasSuffix_def Let_def)

subsection \<open>The example response\<close>

text \<open>
  Claim C5, as amended. When the example response arrives under an identifier other than
  the one of the enumeration query, the line printed is
  \<^verbatim>\<open>tcp\thttp\tprinter.local:631\t\<close> followed by the instance label as the library hands
  it over and a newline: the subject \<^verbatim>\<open>_http._tcp.local.\<close> has three components, so both
  labels are set, and the label \<^verbatim>\<open>My Printer\<close> arrives as \<^verbatim>\<open>My\ Printer\<close>.
\<close>

theorem example_line:
  assumes "Unpack e buf = Inr (decoded_example_response i leaf)" and "i \<noteq> key"
  shows "stdout (snd (read_loop e key s [RecvOk buf addr])) =
     stdout s @
     [''tcp'' @ [CHR 0x09] @ ''http'' @ [CHR 0x09] @ ''printer.local:631'' @ [CHR 0x09] @
      leaf @ [CHR 0x0A]]"
proof -
  have "MsgHdr_Id (decoded_example_response i leaf) = i"
    by (simp add: decoded_example_response_def)
  with assms have "read_loop e key s [RecvOk buf addr] =
      (Blocked, s\<lparr>stdout := stdout s @ [output_line (assemble (decoded_example_response i leaf))]\<rparr>)"
    by simp
  then show ?thesis
    by (simp add: assemble_decoded_example output_line_def)
qed

text \<open>
  The theorem in the environment where the datagram \<open>[2]\<close> decodes to the example response
  under the identifier 7, with the enumeration query under the identifier 100.
\<close>

theorem example_line_witness:
  "Unpack decoder_env [2] = Inr (decoded_example_response 7 My_Printer) \<and> (7 :: uint16) \<noteq> 100
   \<and> stdout (snd (read_loop decoder_env 100 start [RecvOk [2] ''192.168.1.5:5353''])) =
     [''tcp'' @ [CHR 0x09] @ ''http'' @ [CHR 0x09] @ ''printer.local:631'' @ [CHR 0x09] @
      ''My'' @ [CHR 0x5C] @ '' Printer'' @ [CHR 0x0A]]"
proof -
  have n: "(7 :: uint16) \<noteq> 100" by simp
  from example_line [OF Unpack_decoder_env n, of start "''192.168.1.5:5353''"]
  have "stdout (snd (read_loop decoder_env 100 start [RecvOk [2] ''192.168.1.5:5353''])) =
     [''tcp'' @ [CHR 0x09] @ ''http'' @ [CHR 0x09] @ ''printer.local:631'' @ [CHR 0x09] @
      ''My'' @ [CHR 0x5C] @ '' Printer'' @ [CHR 0x0A]]"
    by (simp add: start_def My_Printer_def)
  with Unpack_decoder_env n show ?thesis by (intro conjI)
qed

text \<open>
  Claim C5 as stated fails: the line printed for the example response is not
  \<^verbatim>\<open>http\t\tprinter.local:631\tMy Printer\<close>, with or without the newline.
\<close>

theorem example_line_as_stated_counterexample:
  "stdout (snd (read_loop decoder_env 100 start [RecvOk [2] ''192.168.1.5:5353''])) \<noteq>
     [''http'' @ [CHR 0x09] @ [CHR 0x09] @ ''printer.local:631'' @ [CHR 0x09] @ ''My Printer'']
   \<and> stdout (snd (read_loop decoder_env 100 start [RecvOk [2] ''192.168.1.5:5353''])) \<noteq>
     [''http'' @ [CHR 0x09] @ [CHR 0x09] @ ''printer.local:631'' @ [CHR 0x09] @ ''My Printer'' @
      [CHR 0x0A]]"
proof -
  have "MsgHdr_Id (decoded_example_response 7 My_Printer) \<noteq> 100"
    by (simp add: decoded_example_response_def)
  then have "read_loop decoder_env 100 start [RecvOk [2] ''192.168.1.5:5353''] =
      (Blocked, start\<lparr>stdout := stdout start @
         [output_line (assemble (decoded_example_response 7 My_Printer))]\<rparr>)"
    by (simp add: Unpack_decoder_env)
  then show ?thesis
    by (simp add: assemble_decoded_example output_line_def start_def)
qed

subsection \<open>The run: routing, enumeration, output, failures\<close>

text \<open>
  Claim C1, as amended. In every run of \<^verbatim>\<open>query\<close>, whatever fails, no name is asked for by
  more than one follow-up question, and only pointer targets of enumeration responses are
  asked for. When the run has handled a list of events and waits for the next one, which
  means that they were all datagrams and that no question failed to be packed or written
  on the way, it has sent the enumeration question and then one question per distinct
  pointer target of the enumeration responses among them, in the order of first
  occurrence: every such name is asked for exactly once, however often it repeats; and a
  close of the socket then ends the run in that very state. Over datagrams received, a run
  that is not waiting so has returned the error of a failed listen, pack or write. A pointer answer whose target
  is already in \<^verbatim>\<open>services\<close> changes nothing and sends nothing; one whose target is new and
  whose question is packed and written stores the target and sends one question for it.
\<close>

theorem one_followup_per_service_type:
  "(\<forall>n. count_list (asked (tl (sent (snd (query e qname rs))))) n \<le> 1)
   \<and> set (asked (tl (sent (snd (query e qname rs)))))
       \<subseteq> set (enumeration_targets e (dns_Id e 0) rs)
   \<and> (fst (query e qname rs) = Blocked \<longrightarrow>
          (\<exists>d ds. sent (snd (query e qname rs)) = d # ds
             \<and> packed_from d = ptr_question (dns_Id e 0) qname
             \<and> map packed_from ds =
                 followups e 1 (first_new {} (enumeration_targets e (dns_Id e 0) rs))
             \<and> (\<forall>n. count_list (asked ds) n =
                      (if n \<in> set (enumeration_targets e (dns_Id e 0) rs) then 1 else 0))))
   \<and> (fst (query e qname rs) = Blocked \<longrightarrow> Is_ErrClosed err \<longrightarrow>
          query e qname (rs @ RecvErr err # post) = (Returned None, snd (query e qname rs)))
   \<and> (services s p \<noteq> None \<longrightarrow> enumeration_answers e s [PTR h p] = (None, s))
   \<and> (services s p = None \<longrightarrow>
        Pack e (ptr_question (dns_Id e (ids_drawn s)) p) = Inr buf \<longrightarrow>
        WriteTo e (writes s) buf = None \<longrightarrow>
          (\<exists>s'. enumeration_answers e s [PTR h p] = (None, s')
             \<and> services s' = (services s)(p \<mapsto> ())
             \<and> map packed_from (sent s') =
                 map packed_from (sent s) @ [ptr_question (dns_Id e (ids_drawn s)) p]))
   \<and> (list_all received rs \<longrightarrow>
        fst (query e qname rs) = Blocked \<or>
        (\<exists>err. fst (query e qname rs) = Returned (Some err) \<and>
           (ListenPacket e = Some err \<or> (\<exists>m. Pack e m = Inl err) \<or>
            (\<exists>m b k. Pack e m = Inr b \<and> WriteTo e k b = Some err))))"
proof (intro conjI impI allI)
  fix n
  from query_at_most_once [of e qname rs]
  have "distinct (asked (tl (sent (snd (query e qname rs)))))" by simp
  from count_list_distinct [OF this, of n]
  show "count_list (asked (tl (sent (snd (query e qname rs))))) n \<le> 1" by simp
next
  from query_at_most_once [of e qname rs]
  show "set (asked (tl (sent (snd (query e qname rs)))))
       \<subseteq> set (enumeration_targets e (dns_Id e 0) rs)" by simp
next
  assume bl: "fst (query e qname rs) = Blocked"
  from query_Blocked [OF bl] obtain b where b: "ListenPacket e = None"
    "Pack e (ptr_question (dns_Id e 0) qname) = Inr b" "WriteTo e 0 b = None"
    by blast
  note q = query_sent [OF b, of rs]
  obtain s' where s': "read_loop e (dns_Id e 0) (enumeration_sent e qname b) rs = (Blocked, s')"
    using bl q by (cases "read_loop e (dns_Id e 0) (enumeration_sent e qname b) rs") simp
  from read_loop_exact [OF s']
  have m: "map packed_from (sent s') =
      ptr_question (dns_Id e 0) qname #
      followups e 1 (first_new {} (enumeration_targets e (dns_Id e 0) rs))"
    by (simp add: enumeration_sent_def start_def)
  then obtain d ds where ds: "sent s' = d # ds" "packed_from d = ptr_question (dns_Id e 0) qname"
    "map packed_from ds = followups e 1 (first_new {} (enumeration_targets e (dns_Id e 0) rs))"
    by (cases "sent s'") auto
  from asked_followups [OF ds(3)]
  have "asked ds = first_new {} (enumeration_targets e (dns_Id e 0) rs)" .
  then have "\<forall>n. count_list (asked ds) n =
      (if n \<in> set (enumeration_targets e (dns_Id e 0) rs) then 1 else 0)"
    by (simp add: count_first_new)
  with ds q s' show "\<exists>d ds. sent (snd (query e qname rs)) = d # ds
             \<and> packed_from d = ptr_question (dns_Id e 0) qname
             \<and> map packed_from ds =
                 followups e 1 (first_new {} (enumeration_targets e (dns_Id e 0) rs))
             \<and> (\<forall>n. count_list (asked ds) n =
                      (if n \<in> set (enumeration_targets e (dns_Id e 0) rs) then 1 else 0))"
    by simp
next
  assume bl: "fst (query e qname rs) = Blocked" and cl: "Is_ErrClosed err"
  from query_Blocked [OF bl] obtain b where b: "ListenPacket e = None"
    "Pack e (ptr_question (dns_Id e 0) qname) = Inr b" "WriteTo e 0 b = None"
    by blast
  obtain s' where s': "read_loop e (dns_Id e 0) (enumeration_sent e qname b) rs = (Blocked, s')"
    using bl query_sent [OF b, of rs]
    by (cases "read_loop e (dns_Id e 0) (enumeration_sent e qname b) rs") simp
  from read_loop_append [OF s', of "RecvErr err # post"] cl
  show "query e qname (rs @ RecvErr err # post) = (Returned None, snd (query e qname rs))"
    by (simp add: query_sent [OF b] s')
next
  assume "services s p \<noteq> None"
  then show "enumeration_answers e s [PTR h p] = (None, s)" by simp
next
  assume new: "services s p = None"
    and pk: "Pack e (ptr_question (dns_Id e (ids_drawn s)) p) = Inr buf"
    and wr: "WriteTo e (writes s) buf = None"
  define s2 where
    "s2 = s\<lparr>services := (services s)(p \<mapsto> ()), ids_drawn := Suc (ids_drawn s)\<rparr>"
  have "writes s2 = writes s" by (simp add: s2_def)
  with wr have "WriteTo e (writes s2) buf = None" by simp
  from pack_and_write_success [OF pk this]
  have "enumeration_answers e s [PTR h p] =
      (None, s2\<lparr>writes := Suc (writes s2),
          sent := sent s2 @ [\<lparr>payload = buf, packed_from = ptr_question (dns_Id e (ids_drawn s)) p,
                              dest = mdnsAddr4\<rparr>]\<rparr>)"
    using new by (simp add: s2_def Let_def)
  then show "\<exists>s'. enumeration_answers e s [PTR h p] = (None, s')
               \<and> services s' = (services s)(p \<mapsto> ())
               \<and> map packed_from (sent s') =
                   map packed_from (sent s) @ [ptr_question (dns_Id e (ids_drawn s)) p]"
    by (simp add: s2_def)
next
  assume "list_all received rs"
  then show "fst (query e qname rs) = Blocked \<or>
        (\<exists>err. fst (query e qname rs) = Returned (Some err) \<and>
           (ListenPacket e = Some err \<or> (\<exists>m. Pack e m = Inl err) \<or>
            (\<exists>m b k. Pack e m = Inr b \<and> WriteTo e k b = Some err)))"
    by (rule query_outcome)
qed

text \<open>
  The theorem in the environment whose \<^verbatim>\<open>Pack\<close> refuses names that are not fully
  qualified, at a run that receives the enumeration response, the example response and the
  enumeration response again: six pointer targets, two names, two follow-up questions.
\<close>

theorem one_followup_per_service_type_witness:
  "fst (query fqdn_env ''_services._dns-sd._udp.local.''
          [RecvOk [1] ''192.168.1.5:5353'', RecvOk [2] ''192.168.1.5:5353'',
           RecvOk [1] ''192.168.1.6:5353'']) = Blocked
   \<and> enumeration_targets fqdn_env (dns_Id fqdn_env 0)
        [RecvOk [1] ''192.168.1.5:5353'', RecvOk [2] ''192.168.1.5:5353'',
         RecvOk [1] ''192.168.1.6:5353'']
       = [''_http._tcp.local.'', ''_ipp._tcp.local.'', ''_http._tcp.local.'',
          ''_http._tcp.local.'', ''_ipp._tcp.local.'', ''_http._tcp.local.'']
   \<and> (\<exists>d ds. sent (snd (query fqdn_env ''_services._dns-sd._udp.local.''
          [RecvOk [1] ''192.168.1.5:5353'', RecvOk [2] ''192.168.1.5:5353'',
           RecvOk [1] ''192.168.1.6:5353''])) = d # ds
        \<and> map packed_from ds = [ptr_question 101 ''_http._tcp.local.'', ptr_question 102 ''_ipp._tcp.local.'']
        \<and> count_list (asked ds) ''_http._tcp.local.'' = 1
        \<and> count_list (asked ds) ''_ipp._tcp.local.'' = 1
        \<and> count_list (asked ds) ''_services._dns-sd._udp.local.'' = 0)
   \<and> Is_ErrClosed (Wrapped ''read udp4 0.0.0.0:5353'' ErrClosed)
   \<and> fst (query fqdn_env ''_services._dns-sd._udp.local.''
          ([RecvOk [1] ''192.168.1.5:5353'', RecvOk [2] ''192.168.1.5:5353'',
            RecvOk [1] ''192.168.1.6:5353'']
           @ RecvErr (Wrapped ''read udp4 0.0.0.0:5353'' ErrClosed) # [])) = Returned None
   \<and> services (after_first_write\<lparr>services := [''_http._tcp.local.'' \<mapsto> ()]\<rparr>)
         ''_http._tcp.local.'' \<noteq> None
   \<and> enumeration_answers fqdn_env
         (after_first_write\<lparr>services := [''_http._tcp.local.'' \<mapsto> ()]\<rparr>)
         [PTR ''_services._dns-sd._udp.local.'' ''_http._tcp.local.'']
       = (None, after_first_write\<lparr>services := [''_http._tcp.local.'' \<mapsto> ()]\<rparr>)
   \<and> services after_first_write ''_http._tcp.local.'' = None
   \<and> Pack fqdn_env (ptr_question 101 ''_http._tcp.local.'') = Inr [101]
   \<and> WriteTo fqdn_env 1 [101] = None
   \<and> (\<exists>s'. enumeration_answers fqdn_env after_first_write
               [PTR ''_services._dns-sd._udp.local.'' ''_http._tcp.local.''] = (None, s')
          \<and> services s' ''_http._tcp.local.'' = Some ()
          \<and> map packed_from (sent s') = [ptr_question 101 ''_http._tcp.local.''])"
proof -
  let ?qn = "''_services._dns-sd._udp.local.''"
  let ?rs = "[RecvOk [1] ''192.168.1.5:5353'', RecvOk [2] ''192.168.1.5:5353'',
              RecvOk [1] ''192.168.1.6:5353'']"
  let ?closed = "Wrapped ''read udp4 0.0.0.0:5353'' ErrClosed"
  note t = one_followup_per_service_type [where e = fqdn_env]
  have bl: "fst (query fqdn_env ?qn ?rs) = Blocked" by (fact fqdn_env_run)
  have tg: "enumeration_targets fqdn_env (dns_Id fqdn_env 0) ?rs
       = [''_http._tcp.local.'', ''_ipp._tcp.local.'', ''_http._tcp.local.'',
          ''_http._tcp.local.'', ''_ipp._tcp.local.'', ''_http._tcp.local.'']"
    by (simp add: decoded_def fqdn_env_fields enumeration_response_def example_response_def)
  from t [where qname = ?qn and rs = ?rs, THEN conjunct2, THEN conjunct2, THEN conjunct1,
      rule_format, OF bl]
  obtain d ds where r: "sent (snd (query fqdn_env ?qn ?rs)) = d # ds"
    "map packed_from ds =
       followups fqdn_env 1 (first_new {} (enumeration_targets fqdn_env (dns_Id fqdn_env 0) ?rs))"
    "\<forall>n. count_list (asked ds) n =
        (if n \<in> set (enumeration_targets fqdn_env (dns_Id fqdn_env 0) ?rs) then 1 else 0)"
    by blast
  from r(2) have m: "map packed_from ds =
      [ptr_question 101 ''_http._tcp.local.'', ptr_question 102 ''_ipp._tcp.local.'']"
    unfolding tg by (simp add: followups_def fqdn_env_fields)
  from r(3) have c: "count_list (asked ds) ''_http._tcp.local.'' = 1"
    "count_list (asked ds) ''_ipp._tcp.local.'' = 1"
    "count_list (asked ds) ''_services._dns-sd._udp.local.'' = 0"
    unfolding tg by simp_all
  have run: "\<exists>d ds. sent (snd (query fqdn_env ?qn ?rs)) = d # ds
        \<and> map packed_from ds = [ptr_question 101 ''_http._tcp.local.'', ptr_question 102 ''_ipp._tcp.local.'']
        \<and> count_list (asked ds) ''_http._tcp.local.'' = 1
        \<and> count_list (asked ds) ''_ipp._tcp.local.'' = 1
        \<and> count_list (asked ds) ''_services._dns-sd._udp.local.'' = 0"
  proof (intro conjI exI)
    show "sent (snd (query fqdn_env ?qn ?rs)) = d # ds" by (fact r(1))
    show "map packed_from ds =
      [ptr_question 101 ''_http._tcp.local.'', ptr_question 102 ''_ipp._tcp.local.'']" by (fact m)
    show "count_list (asked ds) ''_http._tcp.local.'' = 1" by (fact c(1))
    show "count_list (asked ds) ''_ipp._tcp.local.'' = 1" by (fact c(2))
    show "count_list (asked ds) ''_services._dns-sd._udp.local.'' = 0" by (fact c(3))
  qed
  have cl: "Is_ErrClosed ?closed" by simp
  from t [where qname = ?qn and rs = ?rs and err = ?closed and post = "[]",
      THEN conjunct2, THEN conjunct2, THEN conjunct2, THEN conjunct1, rule_format, OF bl cl]
  have closed: "fst (query fqdn_env ?qn (?rs @ RecvErr ?closed # [])) = Returned None"
    by simp
  let ?seen = "after_first_write\<lparr>services := [''_http._tcp.local.'' \<mapsto> ()]\<rparr>"
  have old: "services ?seen ''_http._tcp.local.'' \<noteq> None" by simp
  from t [THEN conjunct2, THEN conjunct2, THEN conjunct2, THEN conjunct2, THEN conjunct1,
      rule_format, OF old]
  have skip: "enumeration_answers fqdn_env ?seen
      [PTR ''_services._dns-sd._udp.local.'' ''_http._tcp.local.''] = (None, ?seen)" .
  have new: "services after_first_write ''_http._tcp.local.'' = None"
    by (simp add: after_first_write_def start_def)
  have pk: "Pack fqdn_env (ptr_question 101 ''_http._tcp.local.'') = Inr [101]"
    and wr: "WriteTo fqdn_env 1 [101] = None"
    by (simp_all add: fqdn_env_fields)
  have pk': "Pack fqdn_env (ptr_question (dns_Id fqdn_env (ids_drawn after_first_write))
        ''_http._tcp.local.'') = Inr [101]"
    and wr': "WriteTo fqdn_env (writes after_first_write) [101] = None"
    by (simp_all add: fqdn_env_fields after_first_write_def start_def)
  from t [where h = "''_services._dns-sd._udp.local.''",
      THEN conjunct2, THEN conjunct2, THEN conjunct2, THEN conjunct2, THEN conjunct2,
      THEN conjunct1, rule_format, OF new pk' wr']
  obtain s2 where s2: "enumeration_answers fqdn_env after_first_write
       [PTR ''_services._dns-sd._udp.local.'' ''_http._tcp.local.''] = (None, s2)"
    "services s2 = (services after_first_write)(''_http._tcp.local.'' \<mapsto> ())"
    "map packed_from (sent s2) = map packed_from (sent after_first_write) @
       [ptr_question (dns_Id fqdn_env (ids_drawn after_first_write)) ''_http._tcp.local.'']"
    by blast
  have ask: "\<exists>s'. enumeration_answers fqdn_env after_first_write
               [PTR ''_services._dns-sd._udp.local.'' ''_http._tcp.local.''] = (None, s')
          \<and> services s' ''_http._tcp.local.'' = Some ()
          \<and> map packed_from (sent s') = [ptr_question 101 ''_http._tcp.local.'']"
  proof (intro conjI exI)
    show "enumeration_answers fqdn_env after_first_write
       [PTR ''_services._dns-sd._udp.local.'' ''_http._tcp.local.''] = (None, s2)" by (fact s2(1))
    show "services s2 ''_http._tcp.local.'' = Some ()" using s2(2) by simp
    show "map packed_from (sent s2) = [ptr_question 101 ''_http._tcp.local.'']"
      using s2(3) by (simp add: after_first_write_def start_def fqdn_env_fields)
  qed
  show ?thesis
    using bl tg run cl closed old skip new pk wr ask
    by (intro conjI)
qed

text \<open>
  Claim C1 as stated fails when a write fails. With the third write failing, the run
  returns the error after the question for the first type, and the second type of the
  response received, \<^verbatim>\<open>_ipp._tcp.local.\<close>, gets no question at all.
\<close>

theorem one_followup_as_stated_counterexample:
  "''_ipp._tcp.local.'' \<in> set (enumeration_targets failing_env (dns_Id failing_env 0)
        [RecvOk [1] ''192.168.1.5:5353''])
   \<and> count_list (asked (tl (sent (snd (query failing_env ''_services._dns-sd._udp.local.''
        [RecvOk [1] ''192.168.1.5:5353''])))))
       ''_ipp._tcp.local.'' = 0
   \<and> fst (query failing_env ''_services._dns-sd._udp.local.'' [RecvOk [1] ''192.168.1.5:5353''])
       = Returned (Some (Failure ''network is unreachable''))"
  by (simp add: failing_env_run decoded_def failing_env_fields enumeration_response_def
      asked_def ptr_question_def)

text \<open>
  Claim C2. A decoded message whose identifier is the one of the enumeration query prints
  nothing, whatever records it carries: the loop hands its answers to the enumeration path
  only, which leaves standard output as it was, and goes on (or returns the error of a
  failed send).
\<close>

theorem enumeration_response_prints_nothing:
  assumes "Unpack e buf = Inr msg" and "MsgHdr_Id msg = key"
  shows "stdout (snd (read_loop e key s [RecvOk buf addr])) = stdout s
       \<and> read_loop e key s (RecvOk buf addr # rs) =
           (case enumeration_answers e s (Answer msg) of
              (Some err, s') \<Rightarrow> (Returned (Some err), s')
            | (None, s') \<Rightarrow> read_loop e key s' rs)
       \<and> stdout (snd (enumeration_answers e s (Answer msg))) = stdout s"
proof (intro conjI)
  show loop: "read_loop e key s (RecvOk buf addr # rs) =
           (case enumeration_answers e s (Answer msg) of
              (Some err, s') \<Rightarrow> (Returned (Some err), s')
            | (None, s') \<Rightarrow> read_loop e key s' rs)" for rs
    using assms by simp
  show out: "stdout (snd (enumeration_answers e s (Answer msg))) = stdout s"
    by (simp add: enumeration_answers_stdout)
  show "stdout (snd (read_loop e key s [RecvOk buf addr])) = stdout s"
    unfolding loop using out
    by (cases "enumeration_answers e s (Answer msg)") (auto split: option.splits)
qed

text \<open>
  The theorem at the enumeration response of the example environment, which carries a
  service-location record and an address record besides its pointer records.
\<close>

theorem enumeration_response_prints_nothing_witness:
  "Unpack example_env [1] = Inr (enumeration_response 100)
   \<and> MsgHdr_Id (enumeration_response 100) = 100
   \<and> stdout (snd (read_loop example_env 100 start [RecvOk [1] ''192.168.1.5:5353''])) = []"
proof -
  have i: "MsgHdr_Id (enumeration_response 100) = 100"
    by (simp add: enumeration_response_def)
  from enumeration_response_prints_nothing [where s = start and addr = "''192.168.1.5:5353''"
      and rs = "[]", OF Unpack_example_env(1) i, THEN conjunct1]
  have "stdout (snd (read_loop example_env 100 start [RecvOk [1] ''192.168.1.5:5353''])) = stdout start" .
  then show ?thesis using i Unpack_example_env(1) by (simp add: start_def)
qed



text \<open>
  Claim C7. A datagram that does not decode adds one log line, with the sender's address
  and the error, and nothing else: nothing is printed, the function does not return, and
  the loop handles the remaining datagrams as it would have without it.
\<close>

theorem malformed_datagram_skipped:
  assumes "Unpack e buf = Inl err"
  shows "read_loop e key s (RecvOk buf addr # rs) =
           read_loop e key
             (s\<lparr>logged := logged s @ [''bad response from '' @ addr @ '': '' @ Error err]\<rparr>) rs
       \<and> read_loop e key s [RecvOk buf addr] =
           (Blocked, s\<lparr>logged := logged s @ [''bad response from '' @ addr @ '': '' @ Error err]\<rparr>)
       \<and> (never_fails e \<longrightarrow> list_all received rs \<longrightarrow>
            fst (read_loop e key s (RecvOk buf addr # rs)) = Blocked \<and>
            stdout (snd (read_loop e key s (RecvOk buf addr # rs))) =
              stdout s @ service_lines e key rs)"
proof (intro conjI impI)
  show "read_loop e key s (RecvOk buf addr # rs) =
           read_loop e key
             (s\<lparr>logged := logged s @ [''bad response from '' @ addr @ '': '' @ Error err]\<rparr>) rs"
    using assms by (simp add: bad_response_def)
  show "read_loop e key s [RecvOk buf addr] =
           (Blocked, s\<lparr>logged := logged s @ [''bad response from '' @ addr @ '': '' @ Error err]\<rparr>)"
    using assms by (simp add: bad_response_def)
next
  assume nf: "never_fails e" and rs: "list_all received rs"
  have all: "list_all received (RecvOk buf addr # rs)" using rs by simp
  have d: "decoded e (RecvOk buf addr) = None" using assms by (simp add: decoded_def)
  from read_loop_ok [OF nf all, of key s] obtain s' where s':
    "read_loop e key s (RecvOk buf addr # rs) = (Blocked, s')"
    "stdout s' = stdout s @ service_lines e key (RecvOk buf addr # rs)"
    by blast
  from s' show "fst (read_loop e key s (RecvOk buf addr # rs)) = Blocked" by simp
  from s' d show "stdout (snd (read_loop e key s (RecvOk buf addr # rs))) =
              stdout s @ service_lines e key rs" by simp
qed

text \<open>
  The theorem at a run that receives a datagram that does not decode and then the address
  response: one log line, one output line, the function still reading.
\<close>

theorem malformed_datagram_skipped_witness:
  "Unpack example_env [] = Inl (Failure ''dns: overflow unpacking uint16'')
   \<and> read_loop example_env 100 start [RecvOk [] ''192.168.1.9:5353''] =
       (Blocked, start\<lparr>logged :=
          [''bad response from 192.168.1.9:5353: dns: overflow unpacking uint16'']\<rparr>)
   \<and> never_fails example_env \<and> list_all received [RecvOk [3] ''192.168.1.5:5353'']
   \<and> fst (read_loop example_env 100 start
        [RecvOk [] ''192.168.1.9:5353'', RecvOk [3] ''192.168.1.5:5353'']) = Blocked
   \<and> stdout (snd (read_loop example_env 100 start
        [RecvOk [] ''192.168.1.9:5353'', RecvOk [3] ''192.168.1.5:5353'']))
       = [[CHR 0x09, CHR 0x09, CHR 0x09, CHR 0x0A]]"
proof -
  have i3: "MsgHdr_Id (address_response 8) \<noteq> 100" by (simp add: address_response_def)
  have rs: "list_all received [RecvOk [3] ''192.168.1.5:5353'']" by simp
  have sl: "service_lines example_env 100 [RecvOk [3] ''192.168.1.5:5353'']
      = [[CHR 0x09, CHR 0x09, CHR 0x09, CHR 0x0A]]"
    by (simp add: decoded_example_env3 output_line_address_response i3)
  note a = malformed_datagram_skipped [where s = start and key = 100
      and rs = "[RecvOk [3] ''192.168.1.5:5353'']" and addr = "''192.168.1.9:5353''",
      OF Unpack_example_env(3)]
  from a have l: "read_loop example_env 100 start [RecvOk [] ''192.168.1.9:5353''] =
       (Blocked, start\<lparr>logged :=
          [''bad response from 192.168.1.9:5353: dns: overflow unpacking uint16'']\<rparr>)"
    by (simp add: start_def)
  from a never_fails_example_env rs
  have "fst (read_loop example_env 100 start
        [RecvOk [] ''192.168.1.9:5353'', RecvOk [3] ''192.168.1.5:5353'']) = Blocked \<and>
      stdout (snd (read_loop example_env 100 start
        [RecvOk [] ''192.168.1.9:5353'', RecvOk [3] ''192.168.1.5:5353'']))
       = stdout start @ service_lines example_env 100 [RecvOk [3] ''192.168.1.5:5353'']"
    by blast
  then have o: "fst (read_loop example_env 100 start
        [RecvOk [] ''192.168.1.9:5353'', RecvOk [3] ''192.168.1.5:5353'']) = Blocked"
    "stdout (snd (read_loop example_env 100 start
        [RecvOk [] ''192.168.1.9:5353'', RecvOk [3] ''192.168.1.5:5353'']))
       = [[CHR 0x09, CHR 0x09, CHR 0x09, CHR 0x0A]]"
    unfolding sl by (simp_all add: start_def)
  show ?thesis
    using Unpack_example_env(3) l never_fails_example_env rs o by (intro conjI)
qed

text \<open>
  Claim C8. Let the socket be open and the enumeration question packed. If writing it
  fails, \<^verbatim>\<open>query\<close> returns that error. Otherwise take the run at any point where it has
  handled the datagrams \<open>pre\<close> and waits in the state \<open>s\<close> for the next event. If that event is
  a receive error that is \<^verbatim>\<open>net.ErrClosed\<close>, \<^verbatim>\<open>query\<close> returns \<^verbatim>\<open>nil\<close> in the state \<open>s\<close>: nothing
  more is printed or sent, and the later events stay unread. If it is any other receive
  error, \<^verbatim>\<open>query\<close> returns that error. If it is an enumeration response with a new service
  type whose question cannot be written, \<^verbatim>\<open>query\<close> returns the error of that write.
\<close>

theorem receive_and_send_failures:
  assumes "ListenPacket e = None" and "Pack e (ptr_question (dns_Id e 0) qname) = Inr b0"
  shows "(WriteTo e 0 b0 = Some err \<longrightarrow> fst (query e qname rs) = Returned (Some err))
   \<and> (WriteTo e 0 b0 = None \<longrightarrow>
        read_loop e (dns_Id e 0) (enumeration_sent e qname b0) pre = (Blocked, s) \<longrightarrow>
          (Is_ErrClosed err \<longrightarrow> query e qname (pre @ RecvErr err # rs) = (Returned None, s))
        \<and> (\<not> Is_ErrClosed err \<longrightarrow>
             query e qname (pre @ RecvErr err # rs) = (Returned (Some err), s))
        \<and> (Unpack e buf = Inr msg \<longrightarrow> MsgHdr_Id msg = dns_Id e 0 \<longrightarrow>
             Answer msg = as @ PTR h p # bs \<longrightarrow>
             enumeration_answers e s as = (None, s1) \<longrightarrow> services s1 p = None \<longrightarrow>
             Pack e (ptr_question (dns_Id e (ids_drawn s1)) p) = Inr b \<longrightarrow>
             WriteTo e (writes s1) b = Some err \<longrightarrow>
             fst (query e qname (pre @ RecvOk buf addr # rs)) = Returned (Some err)))"
proof (intro conjI impI)
  assume "WriteTo e 0 b0 = Some err"
  with assms show "fst (query e qname rs) = Returned (Some err)"
    by (simp add: query_def pack_and_write_def start_def)
next
  assume w: "WriteTo e 0 b0 = None"
    and pre: "read_loop e (dns_Id e 0) (enumeration_sent e qname b0) pre = (Blocked, s)"
  note q = query_sent [OF assms w]
  note app = read_loop_append [OF pre]
  {
    assume "Is_ErrClosed err"
    then show "query e qname (pre @ RecvErr err # rs) = (Returned None, s)"
      by (simp add: q app)
  next
    assume "\<not> Is_ErrClosed err"
    then show "query e qname (pre @ RecvErr err # rs) = (Returned (Some err), s)"
      by (simp add: q app)
  next
    assume u: "Unpack e buf = Inr msg" "MsgHdr_Id msg = dns_Id e 0"
      and a: "Answer msg = as @ PTR h p # bs"
      and eas: "enumeration_answers e s as = (None, s1)" and new: "services s1 p = None"
      and f: "Pack e (ptr_question (dns_Id e (ids_drawn s1)) p) = Inr b"
        "WriteTo e (writes s1) b = Some err"
    from f have "Pack e (ptr_question (dns_Id e (ids_drawn s1)) p) = Inl err \<or>
         (\<exists>b. Pack e (ptr_question (dns_Id e (ids_drawn s1)) p) = Inr b \<and>
              WriteTo e (writes s1) b = Some err)"
      by blast
    from enumeration_answers_failure [OF eas new this, of h bs] a
    obtain s' where "enumeration_answers e s (Answer msg) = (Some err, s')" by auto
    with u show "fst (query e qname (pre @ RecvOk buf addr # rs)) = Returned (Some err)"
      by (simp add: q app)
  }
qed

text \<open>
  The theorem at runs of \<^verbatim>\<open>query\<close>: one that prints a line and then finds the socket
  closed, one that prints a line and then meets another receive error, one whose first
  write fails, and one whose second follow-up question cannot be written.
\<close>

theorem receive_and_send_failures_witness:
  "ListenPacket example_env = None
   \<and> Pack example_env (ptr_question (dns_Id example_env 0) ''_services._dns-sd._udp.local.'')
       = Inr [100]
   \<and> WriteTo example_env 0 [100] = None
   \<and> Is_ErrClosed (Wrapped ''read udp4 0.0.0.0:5353'' ErrClosed)
   \<and> query example_env ''_services._dns-sd._udp.local.''
        ([RecvOk [2] ''192.168.1.5:5353'']
         @ RecvErr (Wrapped ''read udp4 0.0.0.0:5353'' ErrClosed) # [RecvOk [2] ''192.168.1.5:5353''])
       = (Returned None,
          (enumeration_sent example_env ''_services._dns-sd._udp.local.'' [100])
            \<lparr>stdout := [''tcp'' @ [CHR 0x09] @ ''http'' @ [CHR 0x09] @ ''printer.local:631'' @
                          [CHR 0x09] @ ''My Printer'' @ [CHR 0x0A]]\<rparr>)
   \<and> \<not> Is_ErrClosed (Failure ''connection refused'')
   \<and> query example_env ''_services._dns-sd._udp.local.''
        ([RecvOk [2] ''192.168.1.5:5353'']
         @ RecvErr (Failure ''connection refused'') # [RecvOk [2] ''192.168.1.5:5353''])
       = (Returned (Some (Failure ''connection refused'')),
          (enumeration_sent example_env ''_services._dns-sd._udp.local.'' [100])
            \<lparr>stdout := [''tcp'' @ [CHR 0x09] @ ''http'' @ [CHR 0x09] @ ''printer.local:631'' @
                          [CHR 0x09] @ ''My Printer'' @ [CHR 0x0A]]\<rparr>)
   \<and> ListenPacket unreachable_env = None
   \<and> WriteTo unreachable_env 0 [100] = Some (Failure ''network is unreachable'')
   \<and> fst (query unreachable_env ''_services._dns-sd._udp.local.'' [RecvOk [1] ''192.168.1.5:5353''])
       = Returned (Some (Failure ''network is unreachable''))
   \<and> ListenPacket failing_env = None
   \<and> Unpack failing_env [1] = Inr (enumeration_response 100)
   \<and> fst (query failing_env ''_services._dns-sd._udp.local.''
        ([] @ RecvOk [1] ''192.168.1.5:5353'' # [RecvOk [2] ''192.168.1.5:5353'']))
       = Returned (Some (Failure ''network is unreachable''))"
proof -
  let ?qn = "''_services._dns-sd._udp.local.''"
  let ?closed = "Wrapped ''read udp4 0.0.0.0:5353'' ErrClosed"
  let ?refused = "Failure ''connection refused''"
  let ?unreach = "Failure ''network is unreachable''"
  let ?s = "(enumeration_sent example_env ?qn [100])
            \<lparr>stdout := [''tcp'' @ [CHR 0x09] @ ''http'' @ [CHR 0x09] @ ''printer.local:631'' @
                          [CHR 0x09] @ ''My Printer'' @ [CHR 0x0A]]\<rparr>"
  have c: "Is_ErrClosed ?closed" by simp
  have n: "\<not> Is_ErrClosed ?refused" by simp
  note ex = receive_and_send_failures [OF example_env_fields(1) example_env_enumeration_query(1),
      where pre = "[RecvOk [2] ''192.168.1.5:5353'']" and rs = "[RecvOk [2] ''192.168.1.5:5353'']"
      and s = ?s, THEN conjunct2, rule_format,
      OF example_env_enumeration_query(2) example_env_one_line]
  from ex [where err = ?closed, THEN conjunct1, rule_format, OF c]
  have r1: "query example_env ?qn ([RecvOk [2] ''192.168.1.5:5353'']
         @ RecvErr ?closed # [RecvOk [2] ''192.168.1.5:5353'']) = (Returned None, ?s)" .
  from ex [where err = ?refused, THEN conjunct2, THEN conjunct1, rule_format, OF n]
  have r2: "query example_env ?qn ([RecvOk [2] ''192.168.1.5:5353'']
         @ RecvErr ?refused # [RecvOk [2] ''192.168.1.5:5353'']) = (Returned (Some ?refused), ?s)" .
  from receive_and_send_failures [OF unreachable_env_fields(1,2),
      where err = ?unreach and rs = "[RecvOk [1] ''192.168.1.5:5353'']",
      THEN conjunct1, rule_format, OF unreachable_env_fields(3)]
  have r3: "fst (query unreachable_env ?qn [RecvOk [1] ''192.168.1.5:5353''])
       = Returned (Some ?unreach)" .
  have a: "Answer (enumeration_response 100) =
      [PTR ''_services._dns-sd._udp.local.'' ''_http._tcp.local.'',
       SRV ''My Printer._http._tcp.local.'' ''printer.local.'' 631]
      @ PTR ''_services._dns-sd._udp.local.'' ''_ipp._tcp.local.''
      # [PTR ''_services._dns-sd._udp.local.'' ''_http._tcp.local.'']"
    and i: "MsgHdr_Id (enumeration_response 100) = dns_Id failing_env 0"
    by (simp_all add: enumeration_response_def failing_env_fields)
  have e0: "read_loop failing_env (dns_Id failing_env 0)
      (enumeration_sent failing_env ?qn [100]) [] = (Blocked, enumeration_sent failing_env ?qn [100])"
    by simp
  from receive_and_send_failures [OF failing_env_fields(1) failing_env_enumeration_query(1),
      where pre = "[]" and rs = "[RecvOk [2] ''192.168.1.5:5353'']"
      and err = ?unreach and addr = "''192.168.1.5:5353''",
      THEN conjunct2, rule_format, OF failing_env_enumeration_query(2) e0,
      THEN conjunct2, THEN conjunct2, rule_format,
      OF failing_env_fields(4) i a failing_env_sent_first_answers [OF refl]]
  have r4: "fst (query failing_env ?qn
        ([] @ RecvOk [1] ''192.168.1.5:5353'' # [RecvOk [2] ''192.168.1.5:5353'']))
       = Returned (Some ?unreach)" .
  show ?thesis
    using example_env_fields(1) example_env_enumeration_query c r1 n r2
      unreachable_env_fields(1,3) r3 failing_env_fields(1,4) r4
    by (intro conjI)
qed

text \<open>
  Claim C10. When packing or writing the question for a new service type fails, the
  function returns that error, and the type is in \<^verbatim>\<open>services\<close> all the same, although no
  question for it was sent: on this error path the set has changed.
\<close>

theorem failed_followup_keeps_insertion:
  assumes "Unpack e buf = Inr msg" and "MsgHdr_Id msg = key"
    and "Answer msg = pre @ PTR h p # post"
    and "enumeration_answers e s pre = (None, s1)" and "services s1 p = None"
    and "Pack e (ptr_question (dns_Id e (ids_drawn s1)) p) = Inl err \<or>
       (\<exists>b. Pack e (ptr_question (dns_Id e (ids_drawn s1)) p) = Inr b \<and>
            WriteTo e (writes s1) b = Some err)"
  shows "\<exists>s'. read_loop e key s (RecvOk buf addr # rs) = (Returned (Some err), s')
           \<and> services s' = (services s1)(p \<mapsto> ()) \<and> services s' \<noteq> services s1
           \<and> sent s' = sent s1"
proof -
  from enumeration_answers_failure [OF assms(4,5,6), of h post] assms(3)
  obtain s' where s': "enumeration_answers e s (Answer msg) = (Some err, s')"
    "services s' = (services s1)(p \<mapsto> ())" "sent s' = sent s1"
    by auto
  from s'(2) assms(5) have "services s' p \<noteq> services s1 p" by simp
  then have "services s' \<noteq> services s1" by auto
  moreover from assms(1,2) s'(1)
  have "read_loop e key s (RecvOk buf addr # rs) = (Returned (Some err), s')" by simp
  ultimately show ?thesis using s'(2,3) by blast
qed

text \<open>
  The theorem at an enumeration response whose second follow-up question cannot be
  written: the function returns the error, the second type is in the set, and only the
  first type was asked for.
\<close>

theorem failed_followup_keeps_insertion_witness:
  "Unpack failing_env [1] = Inr (enumeration_response 100)
   \<and> MsgHdr_Id (enumeration_response 100) = 100
   \<and> services after_first_write ''_ipp._tcp.local.'' = None
   \<and> Pack failing_env (ptr_question 102 ''_ipp._tcp.local.'') = Inr [102]
   \<and> WriteTo failing_env 2 [102] = Some (Failure ''network is unreachable'')
   \<and> (\<exists>s'. read_loop failing_env 100 after_first_write
               [RecvOk [1] ''192.168.1.5:5353'', RecvOk [2] ''192.168.1.5:5353'']
             = (Returned (Some (Failure ''network is unreachable'')), s')
          \<and> services s' ''_ipp._tcp.local.'' = Some ()
          \<and> asked (sent s') = [''_http._tcp.local.''])"
proof -
  let ?s1 = "\<lparr>services = [''_http._tcp.local.'' \<mapsto> ()], ids_drawn = 2, writes = 2,
              sent = [\<lparr>payload = [101], packed_from = ptr_question 101 ''_http._tcp.local.'',
                       dest = mdnsAddr4\<rparr>],
              stdout = [], logged = []\<rparr>"
  have a: "Answer (enumeration_response 100) =
      [PTR ''_services._dns-sd._udp.local.'' ''_http._tcp.local.'',
       SRV ''My Printer._http._tcp.local.'' ''printer.local.'' 631]
      @ PTR ''_services._dns-sd._udp.local.'' ''_ipp._tcp.local.''
      # [PTR ''_services._dns-sd._udp.local.'' ''_http._tcp.local.'']"
    and i: "MsgHdr_Id (enumeration_response 100) = 100"
    by (simp_all add: enumeration_response_def)
  note sf = failing_env_second_send [of ?s1, OF refl]
  have new: "services ?s1 ''_ipp._tcp.local.'' = None" by simp
  have pk: "Pack failing_env (ptr_question 102 ''_ipp._tcp.local.'') = Inr [102]"
    by (simp add: failing_env_fields ptr_question_def)
  have wr: "WriteTo failing_env 2 [102] = Some (Failure ''network is unreachable'')"
    by (simp add: failing_env_fields)
  have f: "Pack failing_env (ptr_question (dns_Id failing_env (ids_drawn ?s1)) ''_ipp._tcp.local.'')
        = Inl (Failure ''network is unreachable'') \<or>
       (\<exists>b. Pack failing_env (ptr_question (dns_Id failing_env (ids_drawn ?s1)) ''_ipp._tcp.local.'')
              = Inr b \<and>
            WriteTo failing_env (writes ?s1) b = Some (Failure ''network is unreachable''))"
    using sf(2,3) by blast
  from failed_followup_keeps_insertion [where rs = "[RecvOk [2] ''192.168.1.5:5353'']"
      and addr = "''192.168.1.5:5353''",
      OF failing_env_fields(4) i a failing_env_first_answers new f]
  obtain s' where s': "read_loop failing_env 100 after_first_write
               [RecvOk [1] ''192.168.1.5:5353'', RecvOk [2] ''192.168.1.5:5353'']
             = (Returned (Some (Failure ''network is unreachable'')), s')"
     "services s' = (services ?s1)(''_ipp._tcp.local.'' \<mapsto> ())" "sent s' = sent ?s1"
    by blast
  from s'(2) have sv: "services s' ''_ipp._tcp.local.'' = Some ()" by simp
  from s'(3) have sn: "asked (sent s') = [''_http._tcp.local.'']"
    by (simp add: asked_def ptr_question_def)
  have n0: "services after_first_write ''_ipp._tcp.local.'' = None"
    by (simp add: after_first_write_def start_def)
  show ?thesis
  proof (intro conjI exI)
    show "read_loop failing_env 100 after_first_write
               [RecvOk [1] ''192.168.1.5:5353'', RecvOk [2] ''192.168.1.5:5353'']
             = (Returned (Some (Failure ''network is unreachable'')), s')" by (fact s'(1))
  qed (fact failing_env_fields(4) i n0 pk wr sv sn)+
qed

text \<open>
  Claim C9, as amended. Over the answer section followed by the supplemental section, the
  instance name is that of the last pointer record, the labels are those of the last
  pointer record whose subject passes the test (a later pointer record that fails it
  leaves them alone), the host is that of the last service-location record, and the
  addresses are those of all address records, in order.
\<close>

theorem later_records_overwrite:
  "(\<forall>pre h p post. Answer m @ Extra m = pre @ PTR h p # post \<longrightarrow> (\<forall>r\<in>set post. \<not> is_PTR r) \<longrightarrow>
        name (assemble m) = name (assemble_rr no_instance (PTR h p)))
   \<and> (\<forall>pre h p post. Answer m @ Extra m = pre @ PTR h p # post \<longrightarrow> label_shape h \<longrightarrow>
        (\<forall>r\<in>set post. \<not> sets_labels r) \<longrightarrow>
        service (assemble m) = service (assemble_rr no_instance (PTR h p)) \<and>
        proto (assemble m) = proto (assemble_rr no_instance (PTR h p)))
   \<and> (\<forall>pre h t p post. Answer m @ Extra m = pre @ SRV h t p # post \<longrightarrow>
        (\<forall>r\<in>set post. \<not> is_SRV r) \<longrightarrow>
        host (assemble m) = host (assemble_rr no_instance (SRV h t p)))
   \<and> addrs (assemble m) = address_texts (Answer m @ Extra m)"
proof (intro conjI allI impI)
  fix pre h p post
  assume "Answer m @ Extra m = pre @ PTR h p # post" "\<forall>r\<in>set post. \<not> is_PTR r"
  then show "name (assemble m) = name (assemble_rr no_instance (PTR h p))"
    using foldl_assemble_rr_last_PTR [of post no_instance pre h p no_instance]
    by (simp add: assemble_def)
next
  fix pre h p post
  assume *: "Answer m @ Extra m = pre @ PTR h p # post" "label_shape h"
    "\<forall>r\<in>set post. \<not> sets_labels r"
  from * show "service (assemble m) = service (assemble_rr no_instance (PTR h p))"
    using foldl_assemble_rr_last_labels(1) [of h post no_instance pre p no_instance]
    by (simp add: assemble_def)
  from * show "proto (assemble m) = proto (assemble_rr no_instance (PTR h p))"
    using foldl_assemble_rr_last_labels(2) [of h post no_instance pre p no_instance]
    by (simp add: assemble_def)
next
  fix pre h t p post
  assume "Answer m @ Extra m = pre @ SRV h t p # post" "\<forall>r\<in>set post. \<not> is_SRV r"
  then show "host (assemble m) = host (assemble_rr no_instance (SRV h t p))"
    using foldl_assemble_rr_last_SRV [of post no_instance pre h t p no_instance]
    by (simp add: assemble_def)
next
  show "addrs (assemble m) = address_texts (Answer m @ Extra m)"
    using foldl_assemble_rr_addrs [of no_instance "Answer m @ Extra m"]
    by (simp add: assemble_def no_instance_def)
qed

text \<open>
  The theorem at the response with a subtype pointer: name from the second pointer record,
  labels from the first, host from the supplemental section, both addresses.
\<close>

theorem later_records_overwrite_witness:
  "label_shape ''_http._tcp.local.'' \<and> \<not> label_shape ''_printer._sub._http._tcp.local.''
   \<and> name (assemble (subtype_response 7)) = ''Other''
   \<and> service (assemble (subtype_response 7)) = ''http''
   \<and> proto (assemble (subtype_response 7)) = ''tcp''
   \<and> host (assemble (subtype_response 7)) = ''printer.local:631''
   \<and> addrs (assemble (subtype_response 7)) = [''192.168.1.5'', ''fe80::1'']"
proof -
  let ?m = "subtype_response 7"
  let ?p1 = "PTR ''_http._tcp.local.'' ''My Printer._http._tcp.local.''"
  let ?s1 = "SRV ''My Printer._http._tcp.local.'' ''old.local.'' 80"
  let ?a1 = "A ''printer.local.'' ''192.168.1.5''"
  let ?p2 = "PTR ''_printer._sub._http._tcp.local.'' ''Other._printer._sub._http._tcp.local.''"
  let ?s2 = "SRV ''My Printer._http._tcp.local.'' ''printer.local.'' 631"
  let ?a2 = "AAAA ''printer.local.'' ''fe80::1''"
  note t = later_records_overwrite [of ?m]
  have n: "Answer ?m @ Extra ?m = [?p1, ?s1, ?a1] @ ?p2 # [?s2, ?a2]"
    and n': "\<forall>r\<in>set [?s2, ?a2]. \<not> is_PTR r"
    by (simp_all add: subtype_response_def)
  have l: "Answer ?m @ Extra ?m = [] @ ?p1 # [?s1, ?a1, ?p2, ?s2, ?a2]"
    and l': "\<forall>r\<in>set [?s1, ?a1, ?p2, ?s2, ?a2]. \<not> sets_labels r"
    by (simp_all add: subtype_response_def label_shape_examples)
  have h: "Answer ?m @ Extra ?m = [?p1, ?s1, ?a1, ?p2] @ ?s2 # [?a2]"
    and h': "\<forall>r\<in>set [?a2]. \<not> is_SRV r"
    by (simp_all add: subtype_response_def)
  from t [THEN conjunct1, rule_format, OF n n' [rule_format]]
  have 1: "name (assemble ?m) = ''Other''"
    by (simp add: TrimSuffix_def HasSuffix_def Let_def)
  from t [THEN conjunct2, THEN conjunct1, rule_format, OF l label_shape_examples(1) l' [rule_format]]
  have 2: "service (assemble ?m) = ''http''" "proto (assemble ?m) = ''tcp''"
    by (simp_all add: Trim_def)
  from t [THEN conjunct2, THEN conjunct2, THEN conjunct1, rule_format, OF h h' [rule_format]]
  have 3: "host (assemble ?m) = ''printer.local:631''"
    by (simp add: TrimSuffix_def HasSuffix_def decimal_631)
  from t [THEN conjunct2, THEN conjunct2, THEN conjunct2]
  have 4: "addrs (assemble ?m) = [''192.168.1.5'', ''fe80::1'']"
    by (simp add: subtype_response_def)
  from label_shape_examples 1 2 3 4 show ?thesis by (intro conjI)
qed

text \<open>
  Claim C9 as stated fails: in that response the labels printed are not those of the
  last pointer record, whose subject has five components and sets none.
\<close>

theorem labels_of_last_pointer_counterexample:
  "last (filter is_PTR (Answer (subtype_response 7) @ Extra (subtype_response 7))) =
     PTR ''_printer._sub._http._tcp.local.'' ''Other._printer._sub._http._tcp.local.''
   \<and> service (assemble (subtype_response 7)) \<noteq>
       service (assemble_rr no_instance
         (PTR ''_printer._sub._http._tcp.local.'' ''Other._printer._sub._http._tcp.local.''))
   \<and> proto (assemble (subtype_response 7)) \<noteq>
       proto (assemble_rr no_instance
         (PTR ''_printer._sub._http._tcp.local.'' ''Other._printer._sub._http._tcp.local.''))"
  by (simp add: subtype_response_def assemble_def no_instance_def Trim_def TrimSuffix_def
      HasSuffix_def decimal_631 decimal_80)

end
